theory Spec2Isabelle
  imports Main "HOL-Library.List_Lexorder" "HOL-Library.Char_ord"
begin

section \<open>JavaScript values and strings\<close>

text \<open>
  The development embeds \<^verbatim>\<open>fetch-notion.mjs\<close>: the incremental Notion synchroniser with
  its content-addressed asset cache. Strings are \<^typ>\<open>string\<close>; an absent, \<^verbatim>\<open>null\<close> or
  \<^verbatim>\<open>undefined\<close> string is \<^const>\<open>None\<close>. JavaScript tests such values for truthiness:
  the empty string is as false as an absent one.
\<close>

definition truthy :: "string option \<Rightarrow> bool" where
  "truthy v = (case v of None \<Rightarrow> False | Some s \<Rightarrow> s \<noteq> [])"

text \<open>\<^verbatim>\<open>a || b\<close> on optional strings.\<close>

definition js_or :: "string option \<Rightarrow> string option \<Rightarrow> string option" where
  "js_or a b = (if truthy a then a else b)"

text \<open>
  A character is a code unit below 256 (Latin-1). \<^verbatim>\<open>String.prototype.trim\<close> strips white
  space and line terminators from both ends: among these code units, tab, line feed,
  vertical tab, form feed, carriage return, space and the no-break space U+00A0.
\<close>

definition is_space :: "char \<Rightarrow> bool" where
  "is_space c =
     (c \<in> set [CHR '' '', CHR 0x09, CHR 0x0A, CHR 0x0B, CHR 0x0C, CHR 0x0D, CHR 0xA0])"

definition trim :: "string \<Rightarrow> string" where
  "trim s = rev (dropWhile is_space (rev (dropWhile is_space s)))"

text \<open>
  \<^verbatim>\<open>toLowerCase\<close>: the upper-case letters among these code units are A to Z and U+00C0
  to U+00DE without the multiplication sign U+00D7; each has its lower-case form 32
  places further.
\<close>

definition to_lower_char :: "char \<Rightarrow> char" where
  "to_lower_char c =
     (if (CHR ''A'' \<le> c \<and> c \<le> CHR ''Z'')
         \<or> (CHR 0xC0 \<le> c \<and> c \<le> CHR 0xDE \<and> c \<noteq> CHR 0xD7)
      then char_of (of_char c + (32::nat)) else c)"

definition toLowerCase :: "string \<Rightarrow> string" where
  "toLowerCase s = map to_lower_char s"

definition is_hex :: "char \<Rightarrow> bool" where
  "is_hex c = (c \<in> set ''0123456789abcdefABCDEF'')"

section \<open>Identifier normaliser\<close>

text \<open>
  \<^verbatim>\<open>s.match(/[0-9a-fA-F]{32}/)\<close>: the leftmost run of 32 hexadecimal characters, if any.
\<close>

fun match_hex32 :: "string \<Rightarrow> string option" where
  "match_hex32 [] = None"
| "match_hex32 (c # cs) =
     (if 32 \<le> length (c # cs) \<and> list_all is_hex (take 32 (c # cs))
      then Some (take 32 (c # cs))
      else match_hex32 cs)"

text \<open>
  \<^verbatim>\<open>
  function normalizeId(input) {
    if (!input) return null
    const s = String(input).trim()
    const m = s.match(/[0-9a-fA-F]{32}/)
    const raw = m ? m[0] : s.replace(/-/g, '')
    return raw.length === 32 ? raw.toLowerCase() : null
  }
  \<close>
\<close>

definition normalizeId :: "string option \<Rightarrow> string option" where
  "normalizeId input =
     (case input of
        None \<Rightarrow> None
      | Some i \<Rightarrow>
          if i = [] then None
          else
            let s = trim i;
                raw = (case match_hex32 s of
                         Some m \<Rightarrow> m
                       | None \<Rightarrow> filter (\<lambda>c. c \<noteq> CHR ''-'') s)
            in if length raw = 32 then Some (toLowerCase raw) else None)"

section \<open>Data model\<close>

text \<open>
  A reference to a binary held by the remote service: a hosted file (signed URL), an
  external URL, and the local path the synchroniser grafts in (\<^verbatim>\<open>image.local\<close>,
  \<^verbatim>\<open>file.local\<close>, a files property's \<^verbatim>\<open>local\<close>).
\<close>

record media =
  file_url :: "string option"
  external_url :: "string option"
  local_path :: "string option"

datatype block_kind = ImageBlock media | FileBlock media | OtherBlock string

datatype block =
  Block (block_id: string) (has_children: bool) (kind: block_kind) (children: "block list option")

record cover =
  cover_file_url :: "string option"
  cover_external_url :: "string option"

record page_meta =
  page_id :: string
  page_last_edited_time :: string
  page_cover :: "cover option"

datatype property = FilesProperty "media list" | OtherProperty string

record row =
  row_id :: string
  row_last_edited_time :: string
  row_cover :: "cover option"
  row_cover_local :: "string option"
  row_properties :: "(string \<times> property) list"
  row_blocks :: "block list option"

record payload =
  page :: page_meta
  blocks :: "block list"
  cover_local :: "string option"

text \<open>The sync state of \<^verbatim>\<open>state.json\<close>.\<close>

record asset_record =
  a_local :: string
  a_hash :: string
  a_size :: nat
  a_updated :: string
  a_last_url :: string

record page_state =
  ps_last_edited_time :: string
  ps_cover_local :: "string option"

record sync_state =
  lastSyncISO :: "string option"
  pages :: "string \<rightharpoonup> page_state"
  dbItems :: "string \<rightharpoonup> string"
  images :: "string \<rightharpoonup> asset_record"

text \<open>
  A file holds downloaded bytes or the JSON of one of the three documents the program
  writes; \<^verbatim>\<open>JSON.parse\<close> of anything else fails.
\<close>

datatype content =
  Bytes string | StateJson sync_state | PageJson payload | DbJson "row list"

datatype error = ApiError string | RangeError | JsonError | IOError

datatype query_filter = LastEditedOnOrAfter string

datatype request =
  PagesRetrieve string
| BlocksChildrenList string "string option"
| DatabasesQuery string "string option" "query_filter option"

datatype event = Sleep nat | ApiCall request | HttpGet string | FileWrite string

text \<open>
  The world a run acts on: the in-memory \<^verbatim>\<open>state\<close> object (passed by reference in the
  source), the disk, the number of questions asked of the outside so far, and the
  effects performed, oldest first.
\<close>

record world =
  mem :: sync_state
  files :: "string \<rightharpoonup> content"
  tick :: nat
  trace :: "event list"

record 'a api_page =
  results :: "'a list"
  has_more :: bool
  next_cursor :: "string option"

datatype http_outcome = FetchRejects | HttpResponse bool nat "string option"

text \<open>
  Everything outside the program is a parameter: the remote API and the HTTP server
  (answers may change from one call to the next, so they are indexed by \<^const>\<open>tick\<close>),
  the clock, and the library functions \<^verbatim>\<open>crypto.createHash('sha1')\<close>, \<^verbatim>\<open>new URL(u).pathname\<close>
  (\<^const>\<open>None\<close> when it throws), \<^verbatim>\<open>new Date(iso).getTime()\<close> (\<^const>\<open>None\<close> for NaN),
  \<^verbatim>\<open>Date.prototype.toISOString\<close>, and whether \<^verbatim>\<open>fs.writeFileSync\<close> succeeds on a path.
\<close>

record env =
  pages_retrieve :: "nat \<Rightarrow> string \<Rightarrow> error + page_meta"
  blocks_children_list :: "nat \<Rightarrow> string \<Rightarrow> string option \<Rightarrow> error + block api_page"
  databases_query ::
    "nat \<Rightarrow> string \<Rightarrow> string option \<Rightarrow> query_filter option \<Rightarrow> error + row api_page"
  http_fetch :: "nat \<Rightarrow> string \<Rightarrow> http_outcome"
  now_iso :: "nat \<Rightarrow> string"
  sha1 :: "string \<Rightarrow> string"
  url_pathname :: "string \<Rightarrow> string option"
  date_parse :: "string \<Rightarrow> int option"
  date_format :: "int \<Rightarrow> string"
  writable :: "string \<Rightarrow> bool"

datatype 'a outcome = Return 'a | Throw error | Diverge

type_synonym 'a prog = "world \<Rightarrow> 'a outcome \<times> world"

definition return :: "'a \<Rightarrow> 'a prog" where
  "return x w = (Return x, w)"

definition then_do :: "'a prog \<Rightarrow> ('a \<Rightarrow> 'b prog) \<Rightarrow> 'b prog" where
  "then_do m f w =
     (case m w of
        (Return x, w1) \<Rightarrow> f x w1
      | (Throw e, w1) \<Rightarrow> (Throw e, w1)
      | (Diverge, w1) \<Rightarrow> (Diverge, w1))"

section \<open>Paths and the disk\<close>

text \<open>
  \<^verbatim>\<open>path.join\<close> on segments that need no normalisation. \<^verbatim>\<open>ROOT\<close> is the directory of
  the script; the model fixes a name for it.
\<close>

definition path_join :: "string \<Rightarrow> string \<Rightarrow> string" where
  "path_join a b = a @ ''/'' @ b"

definition ROOT :: string where
  "ROOT = ''/site''"

definition OUT_DIR :: string where
  "OUT_DIR = path_join ROOT ''notion-data''"

definition IMG_DIR :: string where
  "IMG_DIR = path_join ROOT ''images''"

definition CACHE_DIR :: string where
  "CACHE_DIR = path_join ROOT ''.cache''"

definition STATE_F :: string where
  "STATE_F = path_join CACHE_DIR ''state.json''"

definition fs_existsSync :: "world \<Rightarrow> string \<Rightarrow> bool" where
  "fs_existsSync w p = (files w p \<noteq> None)"

definition fs_writeFileSync :: "env \<Rightarrow> string \<Rightarrow> content \<Rightarrow> unit prog" where
  "fs_writeFileSync E p c w =
     (if writable E p
      then (Return (), w\<lparr>files := (files w)(p \<mapsto> c), trace := trace w @ [FileWrite p]\<rparr>)
      else (Throw IOError, w))"

section \<open>Retry executor\<close>

definition sleep :: "nat \<Rightarrow> world \<Rightarrow> world" where
  "sleep ms w = w\<lparr>trace := trace w @ [Sleep ms]\<rparr>"

text \<open>\<^verbatim>\<open>const wait = Math.min(2500, 250 * 2 ** (n - 1))\<close>, \<open>n\<close> the failures so far.\<close>

definition retry_wait :: "nat \<Rightarrow> nat" where
  "retry_wait n = min 2500 (250 * 2 ^ (n - 1))"

text \<open>
  \<^verbatim>\<open>
  async function withRetry(fn, tries = 5, label = 'request') {
    let n = 0
    while (true) {
      try { return await fn() }
      catch (e) {
        n++
        const wait = Math.min(2500, 250 * 2 ** (n - 1))
        if (n >= tries) throw e
        await sleep(wait)
      }
    }
  }
  \<close>
  The loop is \<open>withRetry_from\<close>, started at \<open>n = 0\<close>; \<^verbatim>\<open>label\<close> only reaches the console.
\<close>

function withRetry_from :: "nat \<Rightarrow> 'a prog \<Rightarrow> nat \<Rightarrow> 'a prog" where
  "withRetry_from n fn tries w =
     (case fn w of
        (Throw e, w1) \<Rightarrow>
          (if tries \<le> Suc n then (Throw e, w1)
           else withRetry_from (Suc n) fn tries (sleep (retry_wait (Suc n)) w1))
      | (Return x, w1) \<Rightarrow> (Return x, w1)
      | (Diverge, w1) \<Rightarrow> (Diverge, w1))"
  by pat_completeness auto
termination
  by (relation "measure (\<lambda>(n, fn, tries, w). tries - n)") auto

declare withRetry_from.simps [simp del]

definition withRetry :: "'a prog \<Rightarrow> nat \<Rightarrow> 'a prog" where
  "withRetry fn tries = withRetry_from 0 fn tries"

section \<open>Sync state store\<close>

definition empty_state :: sync_state where
  "empty_state = \<lparr>lastSyncISO = None, pages = Map.empty, dbItems = Map.empty, images = Map.empty\<rparr>"

text \<open>
  \<^verbatim>\<open>loadState\<close>: a missing or unparsable state file gives the empty state. (A parsed
  state always has its three maps here, which is what the source's defaulting ensures.)
\<close>

definition loadState :: "world \<Rightarrow> sync_state" where
  "loadState w =
     (if \<not> fs_existsSync w STATE_F then empty_state
      else case files w STATE_F of
             Some (StateJson s) \<Rightarrow> s
           | _ \<Rightarrow> empty_state)"

definition saveState :: "env \<Rightarrow> unit prog" where
  "saveState E w = fs_writeFileSync E STATE_F (StateJson (mem w)) w"

text \<open>
  \<^verbatim>\<open>
  function isoMinusMinutes(iso, mins = 2) {
    if (!iso) return null
    const t = new Date(iso).getTime() - mins * 60 * 1000
    return new Date(t).toISOString()
  }
  \<close>
  \<^verbatim>\<open>toISOString\<close> throws a RangeError on an invalid date: NaN, or a time value beyond
  8.64e15 ms either side of the epoch.
\<close>

definition isoMinusMinutes :: "env \<Rightarrow> string option \<Rightarrow> int \<Rightarrow> error + string option" where
  "isoMinusMinutes E since mins =
     (case since of
        None \<Rightarrow> Inr None
      | Some i \<Rightarrow>
          if i = [] then Inr None
          else (case date_parse E i of
                  None \<Rightarrow> Inl RangeError
                | Some ms \<Rightarrow>
                    let t = ms - mins * 60 * 1000
                    in if \<bar>t\<bar> > 8640000000000000 then Inl RangeError
                       else Inr (Some (date_format E t))))"

section \<open>Content-addressed asset cache\<close>

text \<open>
  \<^verbatim>\<open>
  function safeExtFromUrl(u, fallback = 'bin') {
    try {
      const p = new URL(u).pathname
      const ext = (p.split('.').pop() || '').split('?')[0]
      if (!ext || ext.length > 6) return fallback
      return ext
    } catch { return fallback }
  }
  \<close>
\<close>

definition safeExtFromUrl :: "env \<Rightarrow> string \<Rightarrow> string \<Rightarrow> string" where
  "safeExtFromUrl E u fallback =
     (case url_pathname E u of
        None \<Rightarrow> fallback
      | Some p \<Rightarrow>
          let ext = takeWhile (\<lambda>c. c \<noteq> CHR ''?'')
                      (rev (takeWhile (\<lambda>c. c \<noteq> CHR ''.'') (rev p)))
          in if ext = [] \<or> length ext > 6 then fallback else ext)"

text \<open>\<^verbatim>\<open>state.images[key]?.local || null\<close>\<close>

definition cached_local :: "world \<Rightarrow> string \<Rightarrow> string option" where
  "cached_local w key =
     (case images (mem w) key of
        None \<Rightarrow> None
      | Some r \<Rightarrow> if a_local r = [] then None else Some (a_local r))"

text \<open>\<^verbatim>\<open>cached.local.startsWith('./') ? cached.local.slice(2) : cached.local\<close>\<close>

definition strip_dot_slash :: "string \<Rightarrow> string" where
  "strip_dot_slash l = (if take 2 l = ''./'' then drop 2 l else l)"

definition cache_file_name :: "string \<Rightarrow> string \<Rightarrow> string \<Rightarrow> string" where
  "cache_file_name fnameHint hash ext = fnameHint @ ''-'' @ take 12 hash @ ''.'' @ ext"

text \<open>
  \<^verbatim>\<open>
  async function downloadFileCached(key, url, fnameHint, state) {
    if (!url) return state.images[key]?.local || null
    const cached = state.images[key]
    if (cached?.local) {
      const localPath = cached.local.startsWith('./') ? cached.local.slice(2) : cached.local
      const abs = path.join(ROOT, localPath)
      if (fs.existsSync(abs)) return cached.local
    }
    try {
      const res = await fetch(url)
      if (!res.ok) return cached?.local || null
      const buf = Buffer.from(await res.arrayBuffer())
      const hash = sha1(buf)
      const ext = safeExtFromUrl(url, 'bin')
      const name = `${fnameHint}-${hash.slice(0, 12)}.${ext}`
      const localRel = `./images/${name}`
      const dst = path.join(IMG_DIR, name)
      if (!fs.existsSync(dst)) fs.writeFileSync(dst, buf)
      state.images[key] = { local: localRel, hash: `sha1:${hash}`, size: buf.length,
                            updated: new Date().toISOString(), last_url: url }
      return localRel
    } catch (e) { return cached?.local || null }
  }
  \<close>
  The \<^verbatim>\<open>try\<close> block is \<open>download\<close>, and what it does with the bytes of a successful
  response is \<open>store_download\<close>. A response body that cannot be read and a write that
  fails both land in the \<^verbatim>\<open>catch\<close>.
\<close>

definition store_download ::
    "env \<Rightarrow> string \<Rightarrow> string \<Rightarrow> string \<Rightarrow> string \<Rightarrow> string option \<Rightarrow> string option prog" where
  "store_download E key url fnameHint buf cached w1 =
     (let hash = sha1 E buf;
          ext = safeExtFromUrl E url ''bin'';
          name = cache_file_name fnameHint hash ext;
          localRel = ''./images/'' @ name;
          dst = path_join IMG_DIR name
      in case (if \<not> fs_existsSync w1 dst
               then fs_writeFileSync E dst (Bytes buf) w1
               else (Return (), w1)) of
           (Return u, w2) \<Rightarrow>
             (Return (Some localRel),
              w2\<lparr>tick := tick w2 + 1,
                 mem := (mem w2)\<lparr>images := (images (mem w2))(key \<mapsto>
                    \<lparr>a_local = localRel, a_hash = ''sha1:'' @ hash,
                     a_size = length buf, a_updated = now_iso E (tick w2),
                     a_last_url = url\<rparr>)\<rparr>\<rparr>)
         | (Throw e, w2) \<Rightarrow> (Return cached, w2)
         | (Diverge, w2) \<Rightarrow> (Return cached, w2))"

definition download :: "env \<Rightarrow> string \<Rightarrow> string \<Rightarrow> string \<Rightarrow> string option prog" where
  "download E key url fnameHint w =
     (let cached = cached_local w key;
          w1 = w\<lparr>tick := tick w + 1, trace := trace w @ [HttpGet url]\<rparr>
      in case http_fetch E (tick w) url of
           FetchRejects \<Rightarrow> (Return cached, w1)
         | HttpResponse ok status body \<Rightarrow>
             (if \<not> ok then (Return cached, w1)
              else (case body of
                      None \<Rightarrow> (Return cached, w1)
                    | Some buf \<Rightarrow> store_download E key url fnameHint buf cached w1)))"

text \<open>The test in front of the download: a record for the key whose file is on disk.\<close>

definition cache_hit :: "world \<Rightarrow> string \<Rightarrow> bool" where
  "cache_hit w key =
     (case cached_local w key of
        None \<Rightarrow> False
      | Some l \<Rightarrow> fs_existsSync w (path_join ROOT (strip_dot_slash l)))"

definition downloadFileCached ::
    "env \<Rightarrow> string \<Rightarrow> string option \<Rightarrow> string \<Rightarrow> string option prog" where
  "downloadFileCached E key url fnameHint w =
     (case url of
        None \<Rightarrow> (Return (cached_local w key), w)
      | Some u \<Rightarrow>
          if u = [] then (Return (cached_local w key), w)
          else if cache_hit w key then (Return (cached_local w key), w)
          else download E key u fnameHint w)"

section \<open>Remote calls\<close>

text \<open>
  A call of the Notion client: the answer is the environment's at the current
  \<^const>\<open>tick\<close>; a rejected promise is a \<^const>\<open>Throw\<close>.
\<close>

definition asked :: "request \<Rightarrow> world \<Rightarrow> world" where
  "asked req w = w\<lparr>tick := tick w + 1, trace := trace w @ [ApiCall req]\<rparr>"

definition settle :: "error + 'a \<Rightarrow> 'a outcome" where
  "settle r = (case r of Inl e \<Rightarrow> Throw e | Inr x \<Rightarrow> Return x)"

definition notion_pages_retrieve :: "env \<Rightarrow> string \<Rightarrow> page_meta prog" where
  "notion_pages_retrieve E pageId w =
     (settle (pages_retrieve E (tick w) pageId), asked (PagesRetrieve pageId) w)"

definition notion_blocks_children_list ::
    "env \<Rightarrow> string \<Rightarrow> string option \<Rightarrow> block api_page prog" where
  "notion_blocks_children_list E blockId cursor w =
     (settle (blocks_children_list E (tick w) blockId cursor),
      asked (BlocksChildrenList blockId cursor) w)"

definition notion_databases_query ::
    "env \<Rightarrow> string \<Rightarrow> query_filter option \<Rightarrow> string option \<Rightarrow> row api_page prog" where
  "notion_databases_query E database_id filt cursor w =
     (settle (databases_query E (tick w) database_id cursor filt),
      asked (DatabasesQuery database_id cursor filt) w)"

text \<open>
  The pagination loop that \<^verbatim>\<open>listBlocks\<close>, \<^verbatim>\<open>queryDatabaseIncremental\<close> and
  \<^verbatim>\<open>fullIdsInDatabase\<close> each open with:
  \<^verbatim>\<open>
  const all = []
  let cursor
  while (true) {
    const res = await withRetry(() => call(cursor), 5, label)
    all.push(...res.results)
    if (!res.has_more) break
    cursor = res.next_cursor
  }
  \<close>
  The remote decides when it ends, so the loop takes fuel: one unit per page, and
  \<^const>\<open>Diverge\<close> when it runs out.
\<close>

fun paginate ::
    "nat \<Rightarrow> (string option \<Rightarrow> 'a api_page prog) \<Rightarrow> string option \<Rightarrow> 'a list \<Rightarrow> 'a list prog" where
  "paginate 0 call cursor all = (\<lambda>w. (Diverge, w))"
| "paginate (Suc fuel) call cursor all =
     then_do (withRetry (call cursor) 5)
       (\<lambda>res. if \<not> has_more res then return (all @ results res)
              else paginate fuel call (next_cursor res) (all @ results res))"

text \<open>
  \<open>answered call cursor w pages w'\<close>: asked from \<open>cursor\<close> on in world \<open>w\<close>, the remote
  answers the loop with \<open>pages\<close>, the last of which says there are no more, and leaves
  the world \<open>w'\<close>.
\<close>

inductive answered ::
    "(string option \<Rightarrow> 'a api_page prog) \<Rightarrow> string option \<Rightarrow> world \<Rightarrow> 'a api_page list
      \<Rightarrow> world \<Rightarrow> bool" where
  last_page:
    "withRetry (call cursor) 5 w = (Return res, w') \<Longrightarrow> \<not> has_more res
       \<Longrightarrow> answered call cursor w [res] w'"
| next_page:
    "withRetry (call cursor) 5 w = (Return res, w1) \<Longrightarrow> has_more res
       \<Longrightarrow> answered call (next_cursor res) w1 ps w'
       \<Longrightarrow> answered call cursor w (res # ps) w'"

code_pred answered .

section \<open>Block tree fetcher\<close>

definition media_url :: "media \<Rightarrow> string option" where
  "media_url m = js_or (file_url m) (external_url m)"

text \<open>\<^verbatim>\<open>if (local) b.image.local = local\<close>\<close>

definition attach_local :: "string option \<Rightarrow> media \<Rightarrow> media" where
  "attach_local l m = (if truthy l then m\<lparr>local_path := l\<rparr> else m)"

definition cache_block_media :: "env \<Rightarrow> block \<Rightarrow> block prog" where
  "cache_block_media E b =
     (case kind b of
        ImageBlock m \<Rightarrow>
          then_do (downloadFileCached E (''block:'' @ block_id b @ '':image'') (media_url m) ''image'')
            (\<lambda>l. return (Block (block_id b) (has_children b) (ImageBlock (attach_local l m))
                            (children b)))
      | FileBlock m \<Rightarrow>
          then_do (downloadFileCached E (''block:'' @ block_id b @ '':file'') (media_url m) ''file'')
            (\<lambda>l. return (Block (block_id b) (has_children b) (FileBlock (attach_local l m))
                            (children b)))
      | OtherBlock t \<Rightarrow> return b)"

text \<open>
  \<^verbatim>\<open>
  async function listBlocks(blockId, state) {
    const all = []                       // ... the pagination loop ...
    for (const b of all) {
      if (b.has_children) b.children = await listBlocks(b.id, state)
      if (b.type === 'image') { ... downloadFileCached(`block:${b.id}:image`, url, 'image', state) ... }
      if (b.type === 'file')  { ... downloadFileCached(`block:${b.id}:file`, url, 'file', state) ... }
    }
    return all
  }
  \<close>
  \<open>listBlocks_each\<close> is the \<^verbatim>\<open>for\<close> loop. The depth of the tree is the remote's to
  decide, so each level of the recursion takes a unit of fuel.
\<close>

fun listBlocks :: "env \<Rightarrow> nat \<Rightarrow> string \<Rightarrow> block list prog"
  and listBlocks_each :: "env \<Rightarrow> nat \<Rightarrow> block list \<Rightarrow> block list prog" where
  "listBlocks E 0 blockId = (\<lambda>w. (Diverge, w))"
| "listBlocks E (Suc fuel) blockId =
     then_do (paginate fuel (notion_blocks_children_list E blockId) None [])
       (\<lambda>all. listBlocks_each E fuel all)"
| "listBlocks_each E fuel [] = return []"
| "listBlocks_each E fuel (b # bs) =
     then_do (if has_children b
              then then_do (listBlocks E fuel (block_id b))
                     (\<lambda>cs. return (Block (block_id b) (has_children b) (kind b) (Some cs)))
              else return b)
       (\<lambda>b1. then_do (cache_block_media E b1)
          (\<lambda>b2. then_do (listBlocks_each E fuel bs)
             (\<lambda>rest. return (b2 # rest))))"

section \<open>Change-detecting page sync\<close>

definition cover_url :: "cover option \<Rightarrow> string option" where
  "cover_url c =
     (case c of
        None \<Rightarrow> None
      | Some cv \<Rightarrow> js_or (cover_file_url cv) (cover_external_url cv))"

text \<open>
  \<^verbatim>\<open>const changed = !prev || (meta.last_edited_time > prev.last_edited_time)\<close>. The
  stamps are ISO strings, compared as JavaScript compares strings: character by
  character, by character code.
\<close>

definition page_changed :: "page_state option \<Rightarrow> page_meta \<Rightarrow> bool" where
  "page_changed prev meta =
     (case prev of
        None \<Rightarrow> True
      | Some p \<Rightarrow> page_last_edited_time meta > ps_last_edited_time p)"

text \<open>
  \<^verbatim>\<open>
  async function fetchPageIfChanged(pageId, aliasOut, state) {
    const meta = await withRetry(() => notion.pages.retrieve({ page_id: pageId }), 5, ...)
    const prev = state.pages[pageId]
    const changed = !prev || (meta.last_edited_time > prev.last_edited_time)
    if (!changed) return null
    const blocks = await listBlocks(pageId, state)
    const cov = meta?.cover?.file?.url || meta?.cover?.external?.url
    const coverKey = `page:${meta.id}:cover`
    const localCover = cov
      ? await downloadFileCached(coverKey, cov, 'cover', state)
      : (state.images[coverKey]?.local || prev?.cover_local || null)
    const payload = { page: meta, blocks, cover_local: localCover }
    const fname = aliasOut ? `page-${aliasOut}.json` : `page-${pageId}.json`
    fs.writeFileSync(path.join(OUT_DIR, fname), JSON.stringify(payload, null, 2))
    state.pages[pageId] = { last_edited_time: meta.last_edited_time,
                            cover_local: localCover || null }
    return payload
  }
  \<close>
  \<open>fetch_changed_page\<close> is the part after the test.
\<close>

definition page_file :: "string \<Rightarrow> string option \<Rightarrow> string" where
  "page_file pageId aliasOut =
     path_join OUT_DIR
       (''page-'' @ (case aliasOut of
                       None \<Rightarrow> pageId
                     | Some a \<Rightarrow> if a = [] then pageId else a) @ ''.json'')"

definition fetch_changed_page ::
    "env \<Rightarrow> nat \<Rightarrow> string \<Rightarrow> string option \<Rightarrow> page_meta \<Rightarrow> page_state option
      \<Rightarrow> payload option prog" where
  "fetch_changed_page E fuel pageId aliasOut meta prev =
     then_do (listBlocks E fuel pageId)
       (\<lambda>bs.
          let cov = cover_url (page_cover meta);
              coverKey = ''page:'' @ page_id meta @ '':cover''
          in then_do
               (if truthy cov then downloadFileCached E coverKey cov ''cover''
                else (\<lambda>w. (Return (js_or (js_or (cached_local w coverKey)
                                        (case prev of
                                           None \<Rightarrow> None
                                         | Some p \<Rightarrow> ps_cover_local p)) None), w)))
               (\<lambda>localCover.
                  let pl = \<lparr>page = meta, blocks = bs, cover_local = localCover\<rparr>
                  in then_do (fs_writeFileSync E (page_file pageId aliasOut) (PageJson pl))
                       (\<lambda>u w. (Return (Some pl),
                          w\<lparr>mem := (mem w)\<lparr>pages := (pages (mem w))(pageId \<mapsto>
                             \<lparr>ps_last_edited_time = page_last_edited_time meta,
                              ps_cover_local = js_or localCover None\<rparr>)\<rparr>\<rparr>))))"

definition fetchPageIfChanged ::
    "env \<Rightarrow> nat \<Rightarrow> string \<Rightarrow> string option \<Rightarrow> payload option prog" where
  "fetchPageIfChanged E fuel pageId aliasOut =
     then_do (withRetry (notion_pages_retrieve E pageId) 5)
       (\<lambda>meta w.
          let prev = pages (mem w) pageId
          in if \<not> page_changed prev meta then (Return None, w)
             else fetch_changed_page E fuel pageId aliasOut meta prev w)"

section \<open>Incremental database sync\<close>

text \<open>
  A JavaScript \<^verbatim>\<open>Map\<close> keeps its keys in insertion order: \<^verbatim>\<open>set\<close> on a key it holds
  replaces the value in place, on a new key appends.
\<close>

fun map_set :: "'k \<Rightarrow> 'v \<Rightarrow> ('k \<times> 'v) list \<Rightarrow> ('k \<times> 'v) list" where
  "map_set k v [] = [(k, v)]"
| "map_set k v ((k', v') # m) = (if k' = k then (k, v) # m else (k', v') # map_set k v m)"

fun map_get :: "('k \<times> 'v) list \<Rightarrow> 'k \<Rightarrow> 'v option" where
  "map_get [] k = None"
| "map_get ((k', v') # m) k = (if k' = k then Some v' else map_get m k)"

definition map_delete :: "'k \<Rightarrow> ('k \<times> 'v) list \<Rightarrow> ('k \<times> 'v) list" where
  "map_delete k m = filter (\<lambda>kv. fst kv \<noteq> k) m"

definition new_Map :: "('k \<times> 'v) list \<Rightarrow> ('k \<times> 'v) list" where
  "new_Map entries = foldl (\<lambda>m kv. map_set (fst kv) (snd kv) m) [] entries"

text \<open>\<^verbatim>\<open>if (sinceISO) body.filter = { timestamp: 'last_edited_time',
  last_edited_time: { on_or_after: sinceISO } }\<close>\<close>

definition since_filter :: "string option \<Rightarrow> query_filter option" where
  "since_filter sinceISO =
     (case sinceISO of
        None \<Rightarrow> None
      | Some s \<Rightarrow> if s = [] then None else Some (LastEditedOnOrAfter s))"

definition queryDatabaseIncremental ::
    "env \<Rightarrow> nat \<Rightarrow> string \<Rightarrow> string option \<Rightarrow> row list prog" where
  "queryDatabaseIncremental E fuel database_id sinceISO =
     paginate fuel (notion_databases_query E database_id (since_filter sinceISO)) None []"

definition fullIdsInDatabase :: "env \<Rightarrow> nat \<Rightarrow> string \<Rightarrow> string list prog" where
  "fullIdsInDatabase E fuel database_id =
     then_do (paginate fuel (notion_databases_query E database_id None) None [])
       (\<lambda>all. return (map row_id all))"

text \<open>
  Modelled from the spec: the remote API's evaluation of the filter, which is not code of
  this repository (\<open>last-modified at or after sinceTimestamp\<close>; the operator the code
  sends is \<^verbatim>\<open>on_or_after\<close>). A stamp is admitted when it is not before the bound.
\<close>

definition filter_admits :: "env \<Rightarrow> query_filter \<Rightarrow> string \<Rightarrow> bool" where
  "filter_admits E f stamp =
     (case f of
        LastEditedOnOrAfter bound \<Rightarrow>
          (case (date_parse E bound, date_parse E stamp) of
             (Some b, Some t) \<Rightarrow> b \<le> t
           | other \<Rightarrow> False))"

record sync_options =
  sinceISO :: "string option"
  fullMode :: bool
  fetchBlocksForRows :: bool

text \<open>Decimal digits of an array index, for \<^verbatim>\<open>`...:${i}`\<close>.\<close>

fun show_nat :: "nat \<Rightarrow> string" where
  "show_nat n =
     (if n < 10 then [char_of (48 + n)]
      else show_nat (n div 10) @ [char_of (48 + n mod 10)])"

declare show_nat.simps [simp del]

text \<open>
  The body of \<^verbatim>\<open>for (const p of changedRows)\<close>: three steps that work on the fetched
  row \<open>p\<close>, and the upsert.
  \<^verbatim>\<open>
    const cov = p?.cover?.file?.url || p?.cover?.external?.url
    if (cov) {
      const key = `page:${p.id}:cover`
      p.cover_local = await downloadFileCached(key, cov, 'cover', state)
    }
  \<close>
\<close>

definition cache_row_cover :: "env \<Rightarrow> row \<Rightarrow> row prog" where
  "cache_row_cover E p =
     (let cov = cover_url (row_cover p)
      in if truthy cov
         then then_do (downloadFileCached E (''page:'' @ row_id p @ '':cover'') cov ''cover'')
                (\<lambda>l. return (p\<lparr>row_cover_local := l\<rparr>))
         else return p)"

text \<open>
  \<^verbatim>\<open>
    for (const [propName, prop] of Object.entries(p.properties || {})) {
      if (prop?.type === 'files' && Array.isArray(prop.files)) {
        for (let i = 0; i < prop.files.length; i++) {
          const f = prop.files[i]
          const url = f?.file?.url || f?.external?.url
          const key = `page:${p.id}:prop:${propName}:${i}`
          const local = await downloadFileCached(key, url, 'file', state)
          if (local) f.local = local
        }
      }
    }
  \<close>
\<close>

fun cache_files :: "env \<Rightarrow> string \<Rightarrow> nat \<Rightarrow> media list \<Rightarrow> media list prog" where
  "cache_files E keyPrefix i [] = return []"
| "cache_files E keyPrefix i (f # fs) =
     then_do (downloadFileCached E (keyPrefix @ show_nat i) (media_url f) ''file'')
       (\<lambda>l. then_do (cache_files E keyPrefix (Suc i) fs)
          (\<lambda>rest. return (attach_local l f # rest)))"

fun cache_properties ::
    "env \<Rightarrow> string \<Rightarrow> (string \<times> property) list \<Rightarrow> (string \<times> property) list prog" where
  "cache_properties E rowId [] = return []"
| "cache_properties E rowId ((propName, prop) # ps) =
     then_do (case prop of
                FilesProperty fs \<Rightarrow>
                  then_do (cache_files E (''page:'' @ rowId @ '':prop:'' @ propName @ '':'') 0 fs)
                    (\<lambda>fs'. return (FilesProperty fs'))
              | OtherProperty t \<Rightarrow> return prop)
       (\<lambda>prop'. then_do (cache_properties E rowId ps)
          (\<lambda>rest. return ((propName, prop') # rest)))"

text \<open>
  \<^verbatim>\<open>
    if (fetchBlocksForRows) {
      try { p.blocks = await listBlocks(p.id, state) }
      catch (e) { console.warn(...) }
    }
  \<close>
\<close>

definition fetch_row_blocks :: "env \<Rightarrow> nat \<Rightarrow> bool \<Rightarrow> row \<Rightarrow> row prog" where
  "fetch_row_blocks E fuel fetchBlocks p w =
     (if \<not> fetchBlocks then (Return p, w)
      else case listBlocks E fuel (row_id p) w of
             (Return bs, w1) \<Rightarrow> (Return (p\<lparr>row_blocks := Some bs\<rparr>), w1)
           | (Throw e, w1) \<Rightarrow> (Return p, w1)
           | (Diverge, w1) \<Rightarrow> (Diverge, w1))"

text \<open>
  \<^verbatim>\<open>
    byId.set(p.id, p)
    state.dbItems[p.id] = { last_edited_time: p.last_edited_time }
  \<close>
\<close>

definition upsert_row :: "row \<Rightarrow> (string \<times> row) list \<Rightarrow> (string \<times> row) list prog" where
  "upsert_row p byId w =
     (Return (map_set (row_id p) p byId),
      w\<lparr>mem := (mem w)\<lparr>dbItems := (dbItems (mem w))(row_id p \<mapsto> row_last_edited_time p)\<rparr>\<rparr>)"

text \<open>
  \<open>prepare_row\<close> is the body up to the upsert: what becomes of the fetched row \<open>p\<close>. The
  index is not read in it. \<open>sync_row\<close> is the whole body.
\<close>

definition prepare_row :: "env \<Rightarrow> nat \<Rightarrow> bool \<Rightarrow> row \<Rightarrow> row prog" where
  "prepare_row E fuel fetchBlocks p =
     then_do (cache_row_cover E p)
       (\<lambda>p1. then_do (cache_properties E (row_id p1) (row_properties p1))
          (\<lambda>props. fetch_row_blocks E fuel fetchBlocks (p1\<lparr>row_properties := props\<rparr>)))"

definition sync_row ::
    "env \<Rightarrow> nat \<Rightarrow> bool \<Rightarrow> row \<Rightarrow> (string \<times> row) list \<Rightarrow> (string \<times> row) list prog" where
  "sync_row E fuel fetchBlocks p byId =
     then_do (prepare_row E fuel fetchBlocks p) (\<lambda>p2. upsert_row p2 byId)"

fun sync_rows ::
    "env \<Rightarrow> nat \<Rightarrow> bool \<Rightarrow> row list \<Rightarrow> (string \<times> row) list \<Rightarrow> (string \<times> row) list prog" where
  "sync_rows E fuel fetchBlocks [] byId = return byId"
| "sync_rows E fuel fetchBlocks (p # ps) byId =
     then_do (sync_row E fuel fetchBlocks p byId)
       (\<lambda>byId'. sync_rows E fuel fetchBlocks ps byId')"

text \<open>
  \<^verbatim>\<open>fs.existsSync(outFile) ? JSON.parse(fs.readFileSync(outFile, 'utf-8')) : { results: [] }\<close>,
  read for its \<^verbatim>\<open>results\<close>: a file that is not a database snapshot makes the run throw.
\<close>

definition read_snapshot :: "string \<Rightarrow> row list prog" where
  "read_snapshot outFile w =
     (case files w outFile of
        None \<Rightarrow> (Return [], w)
      | Some (DbJson rows) \<Rightarrow> (Return rows, w)
      | Some other \<Rightarrow> (Throw JsonError, w))"

text \<open>
  \<^verbatim>\<open>
    const currentIds = new Set(await fullIdsInDatabase(database_id))
    for (const id of Array.from(byId.keys())) {
      if (!currentIds.has(id)) byId.delete(id)
    }
  \<close>
\<close>

definition reconcile :: "string list \<Rightarrow> (string \<times> row) list \<Rightarrow> (string \<times> row) list" where
  "reconcile currentIds byId =
     foldl (\<lambda>m k. if k \<in> set currentIds then m else map_delete k m) byId (map fst byId)"

definition db_file :: "string \<Rightarrow> string" where
  "db_file outName = path_join OUT_DIR (''db-'' @ outName @ ''.json'')"

text \<open>
  \<^verbatim>\<open>
  async function syncDatabase(database_id, outName, state, options = {}) {
    const { sinceISO, fullMode, fetchBlocksForRows = false } = options
    const changedRows = await queryDatabaseIncremental(database_id, fullMode ? null : sinceISO)
    const outFile = path.join(OUT_DIR, `db-${outName}.json`)
    let snapshot = fs.existsSync(outFile) ? JSON.parse(...) : { results: [] }
    const byId = new Map(snapshot.results.map(x => [x.id, x]))
    for (const p of changedRows) { ... }
    if (fullMode) { ... }
    snapshot = { results: Array.from(byId.values()) }
    fs.writeFileSync(outFile, JSON.stringify(snapshot, null, 2))
  }
  \<close>
\<close>

definition syncDatabase :: "env \<Rightarrow> nat \<Rightarrow> string \<Rightarrow> string \<Rightarrow> sync_options \<Rightarrow> unit prog" where
  "syncDatabase E fuel database_id outName options =
     then_do (queryDatabaseIncremental E fuel database_id
                (if fullMode options then None else sinceISO options))
       (\<lambda>changedRows.
          then_do (read_snapshot (db_file outName))
            (\<lambda>snapshot.
               then_do (sync_rows E fuel (fetchBlocksForRows options) changedRows
                          (new_Map (map (\<lambda>x. (row_id x, x)) snapshot)))
                 (\<lambda>byId.
                    then_do (if fullMode options
                             then then_do (fullIdsInDatabase E fuel database_id)
                                    (\<lambda>currentIds. return (reconcile currentIds byId))
                             else return byId)
                      (\<lambda>byId'. fs_writeFileSync E (db_file outName) (DbJson (map snd byId'))))))"

section \<open>The run\<close>

record config =
  home_page_id :: "string option"
  intro_page_id :: "string option"
  culture_page_id :: "string option"
  members_db_id :: "string option"
  blog_db_id :: "string option"

record process_env =
  FULL_RECONCILE :: "string option"
  FETCH_BLOCKS_FOR_DB :: "string option"

text \<open>
  \<^verbatim>\<open>if (ids.x) { await fetchPageIfChanged(ids.x, alias, state) } else { console.warn(...) }\<close>
  and the same for a database.
\<close>

definition sync_page_if_set :: "env \<Rightarrow> nat \<Rightarrow> string option \<Rightarrow> string \<Rightarrow> unit prog" where
  "sync_page_if_set E fuel pid aliasOut =
     (case pid of
        None \<Rightarrow> return ()
      | Some i \<Rightarrow>
          if i = [] then return ()
          else then_do (fetchPageIfChanged E fuel i (Some aliasOut)) (\<lambda>r. return ()))"

definition sync_db_if_set ::
    "env \<Rightarrow> nat \<Rightarrow> string option \<Rightarrow> string \<Rightarrow> sync_options \<Rightarrow> unit prog" where
  "sync_db_if_set E fuel dbid outName options =
     (case dbid of
        None \<Rightarrow> return ()
      | Some i \<Rightarrow> if i = [] then return () else syncDatabase E fuel i outName options)"

text \<open>
  \<^verbatim>\<open>state.lastSyncISO = new Date().toISOString(); saveState(state)\<close>
\<close>

definition stamp_and_save :: "env \<Rightarrow> unit prog" where
  "stamp_and_save E w =
     saveState E (w\<lparr>tick := tick w + 1,
                    mem := (mem w)\<lparr>lastSyncISO := Some (now_iso E (tick w))\<rparr>\<rparr>)"

text \<open>
  \<^verbatim>\<open>
  async function main() {
    const ids = { home_page_id: normalizeId(idsInput.home_page_id), ... }
    const state = loadState()
    const fullMode = process.env.FULL_RECONCILE === '1' || !state.lastSyncISO
    const sinceISO = fullMode ? null : isoMinusMinutes(state.lastSyncISO, 2)
    const fetchBlocksForRows = process.env.FETCH_BLOCKS_FOR_DB === '1'
    if (ids.home_page_id) await fetchPageIfChanged(ids.home_page_id, 'home', state)
    if (ids.intro_page_id) await fetchPageIfChanged(ids.intro_page_id, 'introduction', state)
    if (ids.culture_page_id) await fetchPageIfChanged(ids.culture_page_id, 'culture', state)
    if (ids.members_db_id) await syncDatabase(ids.members_db_id, 'members', state, {...})
    if (ids.blog_db_id) await syncDatabase(ids.blog_db_id, 'blog', state, {...})
    state.lastSyncISO = new Date().toISOString()
    saveState(state)
  }
  \<close>
  \<open>run_syncs\<close> is the five resource syncs in their order; \<open>main\<close> starts from the disk
  of the given world (its \<^const>\<open>mem\<close> is replaced by the loaded state).
\<close>

definition run_full_mode :: "process_env \<Rightarrow> sync_state \<Rightarrow> bool" where
  "run_full_mode penv s = (FULL_RECONCILE penv = Some ''1'' \<or> \<not> truthy (lastSyncISO s))"

definition run_syncs :: "env \<Rightarrow> nat \<Rightarrow> config \<Rightarrow> sync_options \<Rightarrow> unit prog" where
  "run_syncs E fuel cfg options =
     then_do (sync_page_if_set E fuel (normalizeId (home_page_id cfg)) ''home'')
       (\<lambda>u1. then_do (sync_page_if_set E fuel (normalizeId (intro_page_id cfg)) ''introduction'')
          (\<lambda>u2. then_do (sync_page_if_set E fuel (normalizeId (culture_page_id cfg)) ''culture'')
             (\<lambda>u3. then_do (sync_db_if_set E fuel (normalizeId (members_db_id cfg)) ''members''
                               options)
                (\<lambda>u4. sync_db_if_set E fuel (normalizeId (blog_db_id cfg)) ''blog'' options))))"

definition main :: "env \<Rightarrow> nat \<Rightarrow> config \<Rightarrow> process_env \<Rightarrow> unit prog" where
  "main E fuel cfg penv w0 =
     (let w = w0\<lparr>mem := loadState w0\<rparr>;
          full = run_full_mode penv (mem w)
      in case (if full then Inr None else isoMinusMinutes E (lastSyncISO (mem w)) 2) of
           Inl e \<Rightarrow> (Throw e, w)
         | Inr since \<Rightarrow>
             then_do (run_syncs E fuel cfg
                        \<lparr>sinceISO = since, fullMode = full,
                         fetchBlocksForRows = (FETCH_BLOCKS_FOR_DB penv = Some ''1'')\<rparr>)
               (\<lambda>u. stamp_and_save E) w)"

section \<open>Effects a program may have\<close>

text \<open>
  \<open>emits P m\<close>: whatever world \<open>m\<close> starts from, the trace only grows, every new event
  satisfies \<open>P\<close>, and a file changes only if a write to its path is among the new events.
\<close>

definition emits :: "(event \<Rightarrow> bool) \<Rightarrow> 'a prog \<Rightarrow> bool" where
  "emits P m =
     (\<forall>w. \<exists>evs. trace (snd (m w)) = trace w @ evs \<and> list_all P evs
            \<and> (\<forall>p. FileWrite p \<notin> set evs \<longrightarrow> files (snd (m w)) p = files w p))"

text \<open>
  The events no resource sync is restricted in: sleeps, downloads, page and block
  requests, and writes below the image and snapshot directories.
\<close>

definition benign :: "(event \<Rightarrow> bool) \<Rightarrow> bool" where
  "benign P =
     ((\<forall>n. P (Sleep n)) \<and> (\<forall>u. P (HttpGet u))
      \<and> (\<forall>i. P (ApiCall (PagesRetrieve i)))
      \<and> (\<forall>i c. P (ApiCall (BlocksChildrenList i c)))
      \<and> (\<forall>n. P (FileWrite (path_join IMG_DIR n)))
      \<and> (\<forall>n. P (FileWrite (path_join OUT_DIR n))))"

text \<open>The events of a metadata retrieval: the request, and the waits between attempts.\<close>

definition is_retrieval_event :: "event \<Rightarrow> bool" where
  "is_retrieval_event e =
     (case e of
        Sleep n \<Rightarrow> True
      | ApiCall (PagesRetrieve i) \<Rightarrow> True
      | other \<Rightarrow> False)"

section \<open>Reading a snapshot\<close>

text \<open>The rows of the snapshot file of a collection, none when there is no such file.\<close>

definition stored_rows :: "world \<Rightarrow> string \<Rightarrow> row list" where
  "stored_rows w outName =
     (case files w (db_file outName) of
        Some (DbJson rows) \<Rightarrow> rows
      | other \<Rightarrow> [])"

text \<open>The row a snapshot holds for an id, as the index built from it sees it.\<close>

definition row_of :: "row list \<Rightarrow> string \<Rightarrow> row option" where
  "row_of rows k = map_get (new_Map (map (\<lambda>x. (row_id x, x)) rows)) k"

text \<open>
  \<open>upserted_from fb q v\<close>: the stored row \<open>v\<close> is the fetched row \<open>q\<close>, field by field.
  Identifier, stamp and cover are those of \<open>q\<close>; \<^verbatim>\<open>cover_local\<close> is as fetched unless \<open>q\<close>
  has a cover URL; the properties are those of \<open>q\<close>, in their order, a file of a files
  property as fetched or with a \<^verbatim>\<open>local\<close> path grafted in; the blocks are as fetched, or a
  tree when blocks are fetched for rows (\<open>fb\<close>).
\<close>

definition kept_media :: "media \<Rightarrow> media \<Rightarrow> bool" where
  "kept_media f f' =
     (file_url f' = file_url f \<and> external_url f' = external_url f
      \<and> (f' = f \<or> truthy (local_path f')))"

definition kept_property :: "string \<times> property \<Rightarrow> string \<times> property \<Rightarrow> bool" where
  "kept_property np np' =
     (fst np' = fst np
      \<and> (case snd np of
           FilesProperty fs \<Rightarrow>
             (case snd np' of
                FilesProperty fs' \<Rightarrow> list_all2 kept_media fs fs'
              | OtherProperty t \<Rightarrow> False)
         | OtherProperty t \<Rightarrow> snd np' = OtherProperty t))"

definition upserted_from :: "bool \<Rightarrow> row \<Rightarrow> row \<Rightarrow> bool" where
  "upserted_from fb q v =
     (row_id v = row_id q \<and> row_last_edited_time v = row_last_edited_time q
      \<and> row_cover v = row_cover q
      \<and> (truthy (cover_url (row_cover q)) \<or> row_cover_local v = row_cover_local q)
      \<and> list_all2 kept_property (row_properties q) (row_properties v)
      \<and> (row_blocks v = row_blocks q \<or> (fb \<and> row_blocks v \<noteq> None)))"

text \<open>The snapshot file of a collection can be read: it is absent, or a snapshot.\<close>

definition snapshot_readable :: "world \<Rightarrow> string \<Rightarrow> bool" where
  "snapshot_readable w outName =
     (case files w (db_file outName) of
        None \<Rightarrow> True
      | Some (DbJson rows) \<Rightarrow> True
      | Some other \<Rightarrow> False)"

text \<open>An index whose keys are the ids of its rows.\<close>

definition keyed :: "(string \<times> row) list \<Rightarrow> bool" where
  "keyed m = list_all (\<lambda>kv. fst kv = row_id (snd kv)) m"

text \<open>
  \<open>query_bound_is s e\<close>: if \<open>e\<close> is a database query, its filter is
  \<^verbatim>\<open>last_edited_time on_or_after s\<close>.
\<close>

definition query_bound_is :: "string \<Rightarrow> event \<Rightarrow> bool" where
  "query_bound_is s e =
     (case e of
        ApiCall (DatabasesQuery db c f) \<Rightarrow> f = Some (LastEditedOnOrAfter s)
      | other \<Rightarrow> True)"

section \<open>Fuel\<close>

text \<open>
  \<open>fuel_stable m m'\<close>: wherever \<open>m\<close> ends (returns or throws), \<open>m'\<close> does the same. It
  relates a program to the same program with more fuel.
\<close>

definition fuel_stable :: "'a prog \<Rightarrow> 'a prog \<Rightarrow> bool" where
  "fuel_stable m m' = (\<forall>w. fst (m w) \<noteq> Diverge \<longrightarrow> m' w = m w)"

text \<open>\<open>always_returns m\<close>: from every world, \<open>m\<close> returns a value: it neither throws nor goes on for ever.\<close>

definition always_returns :: "'a prog \<Rightarrow> bool" where
  "always_returns m = (\<forall>w. \<exists>x w'. m w = (Return x, w'))"

section \<open>Example runs\<close>

text \<open>Concrete environments and worlds, used to run the definitions on examples.\<close>

definition world_empty :: world where
  "world_empty = \<lparr>mem = empty_state, files = Map.empty, tick = 0, trace = []\<rparr>"

text \<open>An environment in which every remote call, download and write fails.\<close>

definition env_offline :: env where
  "env_offline =
     \<lparr>pages_retrieve = (\<lambda>t i. Inl (ApiError ''offline'')),
      blocks_children_list = (\<lambda>t i c. Inl (ApiError ''offline'')),
      databases_query = (\<lambda>t d c f. Inl (ApiError ''offline'')),
      http_fetch = (\<lambda>t u. FetchRejects),
      now_iso = (\<lambda>t. ''2024-05-01T00:00:00.000Z''),
      sha1 = (\<lambda>b. []),
      url_pathname = (\<lambda>u. None),
      date_parse = (\<lambda>s. None),
      date_format = (\<lambda>t. []),
      writable = (\<lambda>p. False)\<rparr>"

definition always_failing :: "unit prog" where
  "always_failing w = (Throw (ApiError ''rate_limited''), w)"

definition cover_record :: asset_record where
  "cover_record =
     \<lparr>a_local = ''./images/cover-0123456789ab.png'',
      a_hash = ''sha1:0123456789abcdef0123456789abcdef01234567'',
      a_size = 3,
      a_updated = ''2024-04-01T00:00:00.000Z'',
      a_last_url = ''https://files.example/signature-1/cover.png''\<rparr>"

text \<open>A state with one cover record, with its file on disk and without.\<close>

definition world_cached :: world where
  "world_cached =
     \<lparr>mem = empty_state\<lparr>images := [''page:p1:cover'' \<mapsto> cover_record]\<rparr>,
      files = [''/site/images/cover-0123456789ab.png'' \<mapsto> Bytes ''PNG''],
      tick = 0, trace = []\<rparr>"

definition world_stale :: world where
  "world_stale = world_cached\<lparr>files := Map.empty\<rparr>"

text \<open>
  An environment whose HTTP server answers every request with the same three bytes, and
  in which every write succeeds.
\<close>

definition env_cdn :: env where
  "env_cdn =
     env_offline
       \<lparr>http_fetch := (\<lambda>t u. HttpResponse True 200 (Some ''PNG'')),
        sha1 := (\<lambda>b. ''0123456789abcdef0123456789abcdef01234567''),
        url_pathname := (\<lambda>u. Some ''/signature/picture.png''),
        writable := (\<lambda>p. True)\<rparr>"

text \<open>
  Two image blocks that hold the same picture, downloaded one after the other; then a
  page cover that is the same picture, and a third image block.
\<close>

definition dedup_first :: "string option outcome \<times> world" where
  "dedup_first =
     downloadFileCached env_cdn ''block:b1:image''
       (Some ''https://files.example/s1/picture.png'') ''image'' world_empty"

definition dedup_second :: "string option outcome \<times> world" where
  "dedup_second =
     downloadFileCached env_cdn ''block:b2:image''
       (Some ''https://files.example/s2/picture.png'') ''image'' (snd dedup_first)"

definition dedup_third :: "string option outcome \<times> world" where
  "dedup_third =
     downloadFileCached env_cdn ''page:p1:cover''
       (Some ''https://files.example/s3/picture.png'') ''cover'' (snd dedup_second)"

definition dedup_fourth :: "string option outcome \<times> world" where
  "dedup_fourth =
     downloadFileCached env_cdn ''block:b3:image''
       (Some ''https://files.example/s4/picture.png'') ''image'' (snd dedup_third)"

text \<open>
  A remote that holds one page, without blocks and without cover, last edited at ten
  o'clock; downloads and writes succeed as in \<open>env_cdn\<close>. The page is synced twice in a row.
\<close>

definition steady_meta :: page_meta where
  "steady_meta =
     \<lparr>page_id = ''p1'', page_last_edited_time = ''2024-05-01T10:00:00.000Z'',
      page_cover = None\<rparr>"

definition env_steady :: env where
  "env_steady =
     env_cdn
       \<lparr>pages_retrieve := (\<lambda>t i. Inr steady_meta),
        blocks_children_list :=
          (\<lambda>t i c. Inr \<lparr>results = [], has_more = False, next_cursor = None\<rparr>)\<rparr>"

definition first_sync :: "payload option outcome \<times> world" where
  "first_sync = fetchPageIfChanged env_steady 2 ''p1'' (Some ''home'') world_empty"

definition second_sync :: "payload option outcome \<times> world" where
  "second_sync = fetchPageIfChanged env_steady 2 ''p1'' (Some ''home'') (snd first_sync)"

text \<open>
  A members database. The stored snapshot holds rows A, B and C, A with a cover that is
  cached under \<^verbatim>\<open>page:A:cover\<close>. Upstream, B is gone and A has been edited and has lost
  its cover: the unfiltered query (and the full enumeration) answers A and C, the
  filtered query answers A.
\<close>

definition row_a_old :: row where
  "row_a_old =
     \<lparr>row_id = ''A'', row_last_edited_time = ''2024-04-01T00:00:00.000Z'',
      row_cover = Some \<lparr>cover_file_url = Some ''https://files.example/signature-1/cover.png'',
                        cover_external_url = None\<rparr>,
      row_cover_local = Some ''./images/cover-0123456789ab.png'',
      row_properties = [], row_blocks = None\<rparr>"

definition row_a :: row where
  "row_a =
     \<lparr>row_id = ''A'', row_last_edited_time = ''2024-05-02T00:00:00.000Z'',
      row_cover = None, row_cover_local = None, row_properties = [], row_blocks = None\<rparr>"

definition row_b :: row where
  "row_b =
     \<lparr>row_id = ''B'', row_last_edited_time = ''2024-04-02T00:00:00.000Z'',
      row_cover = None, row_cover_local = None, row_properties = [], row_blocks = None\<rparr>"

definition row_c :: row where
  "row_c =
     \<lparr>row_id = ''C'', row_last_edited_time = ''2024-04-03T00:00:00.000Z'',
      row_cover = None, row_cover_local = None, row_properties = [], row_blocks = None\<rparr>"

definition env_db :: env where
  "env_db =
     env_cdn
       \<lparr>databases_query :=
          (\<lambda>t d c f. Inr \<lparr>results = (case f of None \<Rightarrow> [row_a, row_c] | Some g \<Rightarrow> [row_a]),
                          has_more = False, next_cursor = None\<rparr>)\<rparr>"

definition world_db :: world where
  "world_db =
     \<lparr>mem = empty_state\<lparr>lastSyncISO := Some ''2024-05-01T00:02:00.000Z'',
                          images := [''page:A:cover'' \<mapsto> cover_record]\<rparr>,
      files = [''/site/notion-data/db-members.json'' \<mapsto> DbJson [row_a_old, row_b, row_c],
               ''/site/images/cover-0123456789ab.png'' \<mapsto> Bytes ''PNG''],
      tick = 0, trace = []\<rparr>"

definition full_options :: sync_options where
  "full_options = \<lparr>sinceISO = None, fullMode = True, fetchBlocksForRows = False\<rparr>"

definition incremental_options :: sync_options where
  "incremental_options =
     \<lparr>sinceISO = Some ''2024-05-01T00:00:00.000Z'', fullMode = False,
      fetchBlocksForRows = False\<rparr>"

definition full_run :: "unit outcome \<times> world" where
  "full_run = syncDatabase env_db 1 ''db1'' ''members'' full_options world_db"

definition incremental_run :: "unit outcome \<times> world" where
  "incremental_run = syncDatabase env_db 1 ''db1'' ''members'' incremental_options world_db"

text \<open>
  The same database behind a remote that changes between two requests: the first
  request is answered A and C, every later one A only.
\<close>

definition env_moving :: env where
  "env_moving =
     env_cdn
       \<lparr>databases_query :=
          (\<lambda>t d c f. Inr \<lparr>results = (if t = 0 then [row_a, row_c] else [row_a]),
                          has_more = False, next_cursor = None\<rparr>)\<rparr>"

definition moving_run :: "unit outcome \<times> world" where
  "moving_run = syncDatabase env_moving 1 ''db1'' ''members'' full_options world_db"

text \<open>
  A site with that database and the page of \<open>env_steady\<close>, which has no cover upstream.
  The asset cache holds a cover for row A and one for the page.
\<close>

definition env_site :: env where
  "env_site =
     env_db
       \<lparr>pages_retrieve := (\<lambda>t i. Inr steady_meta),
        blocks_children_list :=
          (\<lambda>t i c. Inr \<lparr>results = [], has_more = False, next_cursor = None\<rparr>)\<rparr>"

definition world_site :: world where
  "world_site =
     world_db\<lparr>mem := (mem world_db)
       \<lparr>images := [''page:A:cover'' \<mapsto> cover_record, ''page:p1:cover'' \<mapsto> cover_record]\<rparr>\<rparr>"

definition site_rows :: "unit outcome \<times> world" where
  "site_rows = syncDatabase env_site 2 ''db1'' ''members'' incremental_options world_site"

definition site_page :: "payload option outcome \<times> world" where
  "site_page = fetchPageIfChanged env_site 2 ''p1'' (Some ''home'') world_site"

text \<open>
  A run that fails half way. The home page has changed upstream and is synced; the
  request for the introduction page fails each time. The state file is that of the
  run before.
\<close>

definition home_id :: string where
  "home_id = ''0123456789abcdef0123456789abcdef''"

definition crash_config :: config where
  "crash_config =
     \<lparr>home_page_id = Some ''https://www.notion.so/Home-0123456789ABCDEF0123456789ABCDEF'',
      intro_page_id = Some ''fedcba98-7654-3210-fedc-ba9876543210'',
      culture_page_id = None, members_db_id = None, blog_db_id = None\<rparr>"

definition crash_state :: sync_state where
  "crash_state =
     empty_state
       \<lparr>lastSyncISO := Some ''2024-05-01T00:02:00.000Z'',
        pages := [home_id \<mapsto> \<lparr>ps_last_edited_time = ''2024-04-01T00:00:00.000Z'',
                                ps_cover_local = None\<rparr>]\<rparr>"

definition world_before_crash :: world where
  "world_before_crash =
     \<lparr>mem = empty_state,
      files = [''/site/.cache/state.json'' \<mapsto> StateJson crash_state],
      tick = 0, trace = []\<rparr>"

definition env_crash :: env where
  "env_crash =
     env_cdn
       \<lparr>pages_retrieve :=
          (\<lambda>t i. if i = home_id then Inr steady_meta else Inl (ApiError ''unavailable'')),
        blocks_children_list :=
          (\<lambda>t i c. Inr \<lparr>results = [], has_more = False, next_cursor = None\<rparr>)\<rparr>"

definition crash_run :: "unit outcome \<times> world" where
  "crash_run =
     main env_crash 2 crash_config
       \<lparr>FULL_RECONCILE = Some ''1'', FETCH_BLOCKS_FOR_DB = None\<rparr> world_before_crash"

text \<open>
  An incremental run over the members database of \<open>env_db\<close>, with a clock that knows the
  watermark (two minutes past midnight) and the bound (midnight), in milliseconds.
\<close>

definition members_id :: string where
  "members_id = ''00112233445566778899aabbccddeeff''"

definition env_clock :: env where
  "env_clock =
     env_db
       \<lparr>date_parse :=
          (\<lambda>s. if s = ''2024-05-01T00:02:00.000Z'' then Some 1714521720000
               else if s = ''2024-05-01T00:00:00.000Z'' then Some 1714521600000
               else None),
        date_format :=
          (\<lambda>t. if t = 1714521600000 then ''2024-05-01T00:00:00.000Z''
               else ''1970-01-01T00:00:00.000Z'')\<rparr>"

definition world_synced :: world where
  "world_synced =
     \<lparr>mem = empty_state,
      files = [''/site/.cache/state.json'' \<mapsto>
                 StateJson (empty_state\<lparr>lastSyncISO := Some ''2024-05-01T00:02:00.000Z''\<rparr>),
               ''/site/notion-data/db-members.json'' \<mapsto> DbJson [row_a_old, row_b, row_c]],
      tick = 0, trace = []\<rparr>"

definition members_config :: config where
  "members_config =
     \<lparr>home_page_id = None, intro_page_id = None, culture_page_id = None,
      members_db_id = Some members_id, blog_db_id = None\<rparr>"

definition incremental_main :: "unit outcome \<times> world" where
  "incremental_main =
     main env_clock 1 members_config
       \<lparr>FULL_RECONCILE = None, FETCH_BLOCKS_FOR_DB = None\<rparr> world_synced"

text \<open>
  A remote that evaluates the filter: of three rows, last edited one millisecond before
  the bound, at the bound and at the watermark, it answers those the filter admits.
\<close>

definition row_before :: row where
  "row_before =
     \<lparr>row_id = ''D'', row_last_edited_time = ''2024-04-30T23:59:59.999Z'',
      row_cover = None, row_cover_local = None, row_properties = [], row_blocks = None\<rparr>"

definition row_edge :: row where
  "row_edge =
     \<lparr>row_id = ''E'', row_last_edited_time = ''2024-05-01T00:00:00.000Z'',
      row_cover = None, row_cover_local = None, row_properties = [], row_blocks = None\<rparr>"

definition row_after :: row where
  "row_after =
     \<lparr>row_id = ''F'', row_last_edited_time = ''2024-05-01T00:02:00.000Z'',
      row_cover = None, row_cover_local = None, row_properties = [], row_blocks = None\<rparr>"

definition margin_clock :: env where
  "margin_clock =
     env_clock
       \<lparr>date_parse :=
          (\<lambda>s. if s = ''2024-04-30T23:59:59.999Z'' then Some 1714521599999
               else date_parse env_clock s)\<rparr>"

definition env_margin :: env where
  "env_margin =
     margin_clock
       \<lparr>databases_query :=
          (\<lambda>t d c f.
             Inr \<lparr>results =
                    (case f of
                       None \<Rightarrow> [row_before, row_edge, row_after]
                     | Some g \<Rightarrow>
                         filter (\<lambda>x. filter_admits margin_clock g (row_last_edited_time x))
                           [row_before, row_edge, row_after]),
                  has_more = False, next_cursor = None\<rparr>)\<rparr>"

definition margin_main :: "unit outcome \<times> world" where
  "margin_main =
     main env_margin 1 members_config
       \<lparr>FULL_RECONCILE = None, FETCH_BLOCKS_FOR_DB = None\<rparr> world_synced"

section \<open>Properties of the retry executor\<close>

text \<open>
  The waits the source computes at failures 1 to 5. The fifth is 2500 ms: the cap of
  \<^verbatim>\<open>fetch-notion.mjs\<close> is 2500, not 2000.
\<close>

lemma retry_wait_values: "map retry_wait [1, 2, 3, 4, 5] = [250, 500, 1000, 2000, 2500]"
  by (simp add: retry_wait_def)

text \<open>
  C7, as stated: the delays for attempts 1 to 5 would be 250, 500, 1000, 2000, 2000.
  The value computed at the fifth failure is 2500.
\<close>

theorem retry_wait_sequence_counterexample:
  "map retry_wait [1, 2, 3, 4, 5] \<noteq> [250, 500, 1000, 2000, 2000]"
  by (simp add: retry_wait_def)

text \<open>
  C7, amended: the wait after the \<open>n\<close>-th failure is \<open>min 2500 (250 * 2 ^ (n - 1))\<close>. With
  5 attempts that all fail, the executor sleeps 250, 500, 1000 and 2000 ms after failures
  1 to 4, and the fifth failure is thrown to the caller as it is: the final world is the
  one the fifth attempt left, with no further sleep and no sixth attempt.
\<close>

theorem withRetry_five_failures:
  assumes "fn w0 = (Throw e1, w1)"
    and "fn (sleep 250 w1) = (Throw e2, w2)"
    and "fn (sleep 500 w2) = (Throw e3, w3)"
    and "fn (sleep 1000 w3) = (Throw e4, w4)"
    and "fn (sleep 2000 w4) = (Throw e5, w5)"
  shows "withRetry fn 5 w0 = (Throw e5, w5)
    \<and> retry_wait n = min 2500 (250 * 2 ^ (n - 1))
    \<and> map retry_wait [1, 2, 3, 4] = [250, 500, 1000, 2000]"
  using assms
  by (simp add: withRetry_def withRetry_from.simps [of _ fn] retry_wait_def)

theorem withRetry_five_failures_witness:
  "withRetry always_failing 5 world_empty =
     (Throw (ApiError ''rate_limited''),
      world_empty\<lparr>trace := [Sleep 250, Sleep 500, Sleep 1000, Sleep 2000]\<rparr>)"
  using withRetry_five_failures [of always_failing world_empty "ApiError ''rate_limited''"
      world_empty "ApiError ''rate_limited''" "sleep 250 world_empty"
      "ApiError ''rate_limited''" "sleep 500 (sleep 250 world_empty)"
      "ApiError ''rate_limited''" "sleep 1000 (sleep 500 (sleep 250 world_empty))"
      "ApiError ''rate_limited''" "sleep 2000 (sleep 1000 (sleep 500 (sleep 250 world_empty)))"]
  by (simp add: always_failing_def sleep_def world_empty_def)

section \<open>Properties of the identifier normaliser\<close>

lemma normalizeId_not_an_id: "normalizeId (Some ''not-an-id'') = None"
  by (simp add: normalizeId_def trim_def is_space_def is_hex_def)

text \<open>
  C8: a string that holds no run of 32 hexadecimal characters is accepted as soon as it
  has 32 characters once its hyphens are gone; the fallback tests the length only. Here
  the input has the shape of a dashed identifier and no hexadecimal digit at all.
\<close>

theorem normalizeId_accepts_non_hex:
  "normalizeId (Some ''zzzzzzzz-zzzz-zzzz-zzzz-zzzzzzzzzzzz'') =
     Some ''zzzzzzzzzzzzzzzzzzzzzzzzzzzzzzzz''
   \<and> \<not> list_all is_hex ''zzzzzzzzzzzzzzzzzzzzzzzzzzzzzzzz''"
  by (simp add: normalizeId_def trim_def is_space_def is_hex_def toLowerCase_def
      to_lower_char_def)

section \<open>Properties of the asset cache\<close>

text \<open>
  C1: when the state holds a record for the key and the record's file is on disk, the
  call returns the recorded path and leaves the world as it was (no fetch, no write, no
  change of the state), whatever the URL argument is, absent or different from the
  recorded one.
\<close>

theorem downloadFileCached_cache_hit:
  assumes "images (mem w) key = Some r"
    and "a_local r \<noteq> []"
    and "fs_existsSync w (path_join ROOT (strip_dot_slash (a_local r)))"
  shows "downloadFileCached E key url fnameHint w = (Return (Some (a_local r)), w)"
  using assms
  by (simp add: downloadFileCached_def cache_hit_def cached_local_def split: option.splits)

theorem downloadFileCached_cache_hit_witness:
  "a_last_url cover_record \<noteq> ''https://files.example/signature-2/cover.png''
   \<and> downloadFileCached env_offline ''page:p1:cover''
       (Some ''https://files.example/signature-2/cover.png'') ''cover'' world_cached =
     (Return (Some ''./images/cover-0123456789ab.png''), world_cached)"
  using downloadFileCached_cache_hit [of world_cached "''page:p1:cover''" cover_record
      env_offline "Some ''https://files.example/signature-2/cover.png''" "''cover''"]
  by (simp add: world_cached_def cover_record_def fs_existsSync_def path_join_def ROOT_def
      strip_dot_slash_def)

text \<open>
  C9: the record's file is gone and no fresh file can be had (no URL, a rejected fetch, or
  a response that is not ok). The call returns the recorded path all the same, a path
  that is not on disk, and neither the state nor the disk changes.
\<close>

theorem downloadFileCached_stale_fallback:
  assumes "images (mem w) key = Some r"
    and "a_local r \<noteq> []"
    and "\<not> fs_existsSync w (path_join ROOT (strip_dot_slash (a_local r)))"
    and "\<not> truthy url
         \<or> (\<exists>u. url = Some u \<and> (http_fetch E (tick w) u = FetchRejects
               \<or> (\<exists>status body. http_fetch E (tick w) u = HttpResponse False status body)))"
  shows "fst (downloadFileCached E key url fnameHint w) = Return (Some (a_local r))
    \<and> mem (snd (downloadFileCached E key url fnameHint w)) = mem w
    \<and> files (snd (downloadFileCached E key url fnameHint w)) = files w"
  using assms
  by (auto simp add: downloadFileCached_def cache_hit_def cached_local_def download_def
      truthy_def split: option.splits)

theorem downloadFileCached_stale_fallback_witness:
  "downloadFileCached env_offline ''page:p1:cover''
       (Some ''https://files.example/signature-2/cover.png'') ''cover'' world_stale =
     (Return (Some ''./images/cover-0123456789ab.png''),
      world_stale\<lparr>tick := 1,
        trace := [HttpGet ''https://files.example/signature-2/cover.png'']\<rparr>)
   \<and> \<not> fs_existsSync world_stale ''/site/images/cover-0123456789ab.png''"
  using downloadFileCached_stale_fallback [of world_stale "''page:p1:cover''" cover_record
      "Some ''https://files.example/signature-2/cover.png''" env_offline "''cover''"]
  by (simp add: world_cached_def world_stale_def cover_record_def fs_existsSync_def
      path_join_def ROOT_def strip_dot_slash_def env_offline_def truthy_def
      downloadFileCached_def cache_hit_def cached_local_def download_def)

text \<open>What a download does when the response is ok and the file can be stored.\<close>

lemma download_stores:
  assumes "http_fetch E (tick w) u = HttpResponse True st (Some buf)"
    and "dst = path_join IMG_DIR (cache_file_name h (sha1 E buf) (safeExtFromUrl E u ''bin''))"
    and "fs_existsSync w dst \<or> writable E dst"
  shows "download E key u h w =
     (Return (Some (''./images/'' @ cache_file_name h (sha1 E buf) (safeExtFromUrl E u ''bin''))),
      w\<lparr>tick := tick w + 2,
        trace := trace w @ [HttpGet u] @ (if fs_existsSync w dst then [] else [FileWrite dst]),
        files := (if fs_existsSync w dst then files w else (files w)(dst \<mapsto> Bytes buf)),
        mem := (mem w)\<lparr>images := (images (mem w))(key \<mapsto>
            \<lparr>a_local = ''./images/'' @ cache_file_name h (sha1 E buf) (safeExtFromUrl E u ''bin''),
             a_hash = ''sha1:'' @ sha1 E buf,
             a_size = length buf, a_updated = now_iso E (tick w + 1),
             a_last_url = u\<rparr>)\<rparr>\<rparr>)"
  using assms
  by (auto simp add: download_def store_download_def Let_def fs_existsSync_def
      fs_writeFileSync_def)

text \<open>
  C5, as stated: the same bytes are never written to disk twice. The file name starts
  with the hint, so a page cover and an image block that hold the same picture are
  stored as two files with the same bytes: two writes.
\<close>

theorem dedup_across_hints_counterexample:
  "trace (snd (then_do
       (downloadFileCached env_cdn ''page:p1:cover''
          (Some ''https://files.example/s1/picture.png'') ''cover'')
       (\<lambda>r. downloadFileCached env_cdn ''block:b1:image''
          (Some ''https://files.example/s2/picture.png'') ''image'')
       world_empty)) =
     [HttpGet ''https://files.example/s1/picture.png'',
      FileWrite ''/site/images/cover-0123456789ab.png'',
      HttpGet ''https://files.example/s2/picture.png'',
      FileWrite ''/site/images/image-0123456789ab.png'']
   \<and> files (snd (then_do
       (downloadFileCached env_cdn ''page:p1:cover''
          (Some ''https://files.example/s1/picture.png'') ''cover'')
       (\<lambda>r. downloadFileCached env_cdn ''block:b1:image''
          (Some ''https://files.example/s2/picture.png'') ''image'')
       world_empty)) =
     [''/site/images/cover-0123456789ab.png'' \<mapsto> Bytes ''PNG'',
      ''/site/images/image-0123456789ab.png'' \<mapsto> Bytes ''PNG'']"
  by (simp add: then_do_def downloadFileCached_def cache_hit_def cached_local_def download_def
      store_download_def env_cdn_def env_offline_def world_empty_def empty_state_def
      fs_existsSync_def fs_writeFileSync_def safeExtFromUrl_def cache_file_name_def
      path_join_def IMG_DIR_def ROOT_def Let_def)

text \<open>Two file names with the same hash segment are equal only if hint and extension are.\<close>

lemma split_at_last:
  assumes "xs @ c # ys = xs' @ c # ys'" and "c \<notin> set ys" and "c \<notin> set ys'"
  shows "xs = xs' \<and> ys = ys'"
proof -
  have t: "takeWhile (\<lambda>x. x \<noteq> c) (rev (as @ c # bs)) = rev bs" if "c \<notin> set bs" for as bs
  proof -
    have "takeWhile (\<lambda>x. x \<noteq> c) (rev bs @ c # rev as)
        = rev bs @ takeWhile (\<lambda>x. x \<noteq> c) (c # rev as)"
      by (rule takeWhile_append2) (use that in auto)
    then show ?thesis by simp
  qed
  have "rev ys = rev ys'"
    using t [OF assms(2), of xs] t [OF assms(3), of xs'] assms(1) by simp
  then have "ys = ys'" by simp
  then show ?thesis using assms(1) by simp
qed

lemma safeExtFromUrl_no_dot: "CHR ''.'' \<notin> set (safeExtFromUrl E u ''bin'')"
proof -
  have "CHR ''.'' \<notin> set (takeWhile (\<lambda>c. c \<noteq> CHR ''?'')
                      (rev (takeWhile (\<lambda>c. c \<noteq> CHR ''.'') (rev p))))" for p
    by (auto dest!: set_takeWhileD)
  then show ?thesis
    by (simp add: safeExtFromUrl_def Let_def split: option.splits)
qed

lemma cache_file_name_eq:
  assumes "CHR ''.'' \<notin> set e1" and "CHR ''.'' \<notin> set e2"
  shows "cache_file_name h1 hash e1 = cache_file_name h2 hash e2 \<longleftrightarrow> h1 = h2 \<and> e1 = e2"
proof
  assume "cache_file_name h1 hash e1 = cache_file_name h2 hash e2"
  then have "(h1 @ ''-'' @ take 12 hash) @ CHR ''.'' # e1 = (h2 @ ''-'' @ take 12 hash) @ CHR ''.'' # e2"
    by (simp add: cache_file_name_def)
  from split_at_last [OF this assms] show "h1 = h2 \<and> e1 = e2" by simp
qed simp

text \<open>
  C5, amended: two downloads of the same bytes under two different keys, one after the
  other, both stored. Each key gets a record whose file name is the hint, the first 12
  characters of the hash of the bytes, and the extension inferred from the URL: the two
  names share the hash segment. The second call writes nothing when a file of its name
  is on disk already: when hint and extension are those of the first call, or when a
  file of that name was there before the first call; the disk is then as the first call
  left it and the only effect is the fetch. Otherwise (another hint or extension, and no
  file of that name yet) the same bytes are written once more, under the other name.
\<close>

theorem downloadFileCached_content_dedup:
  assumes call1: "downloadFileCached E k1 (Some u1) h1 w = (r1, w1)"
    and call2: "downloadFileCached E k2 (Some u2) h2 w1 = (r2, w2)"
    and urls: "u1 \<noteq> []" "u2 \<noteq> []"
    and keys: "k1 \<noteq> k2"
    and miss1: "\<not> cache_hit w k1"
    and miss2: "\<not> cache_hit w1 k2"
    and resp1: "http_fetch E (tick w) u1 = HttpResponse True st1 (Some buf)"
    and resp2: "http_fetch E (tick w1) u2 = HttpResponse True st2 (Some buf)"
    and wr1: "writable E (path_join IMG_DIR
                (cache_file_name h1 (sha1 E buf) (safeExtFromUrl E u1 ''bin'')))"
    and wr2: "writable E (path_join IMG_DIR
                (cache_file_name h2 (sha1 E buf) (safeExtFromUrl E u2 ''bin'')))"
  shows "r1 = Return (Some (''./images/'' @ h1 @ ''-'' @ take 12 (sha1 E buf) @ ''.''
                  @ safeExtFromUrl E u1 ''bin''))
    \<and> r2 = Return (Some (''./images/'' @ h2 @ ''-'' @ take 12 (sha1 E buf) @ ''.''
                  @ safeExtFromUrl E u2 ''bin''))
    \<and> map_option a_local (images (mem w2) k1) =
        Some (''./images/'' @ h1 @ ''-'' @ take 12 (sha1 E buf) @ ''.''
                  @ safeExtFromUrl E u1 ''bin'')
    \<and> map_option a_local (images (mem w2) k2) =
        Some (''./images/'' @ h2 @ ''-'' @ take 12 (sha1 E buf) @ ''.''
                  @ safeExtFromUrl E u2 ''bin'')
    \<and> (h1 = h2 \<and> safeExtFromUrl E u1 ''bin'' = safeExtFromUrl E u2 ''bin''
        \<longrightarrow> files w2 = files w1 \<and> trace w2 = trace w1 @ [HttpGet u2])
    \<and> (fs_existsSync w (path_join IMG_DIR
            (cache_file_name h2 (sha1 E buf) (safeExtFromUrl E u2 ''bin'')))
        \<longrightarrow> files w2 = files w1 \<and> trace w2 = trace w1 @ [HttpGet u2])
    \<and> (\<not> (h1 = h2 \<and> safeExtFromUrl E u1 ''bin'' = safeExtFromUrl E u2 ''bin'')
        \<and> \<not> fs_existsSync w (path_join IMG_DIR
            (cache_file_name h2 (sha1 E buf) (safeExtFromUrl E u2 ''bin'')))
        \<longrightarrow> files w2 = (files w1)(path_join IMG_DIR
                (cache_file_name h2 (sha1 E buf) (safeExtFromUrl E u2 ''bin'')) \<mapsto> Bytes buf)
          \<and> trace w2 = trace w1 @ [HttpGet u2, FileWrite (path_join IMG_DIR
                (cache_file_name h2 (sha1 E buf) (safeExtFromUrl E u2 ''bin'')))])"
proof -
  let ?e1 = "safeExtFromUrl E u1 ''bin''"
  let ?e2 = "safeExtFromUrl E u2 ''bin''"
  let ?d1 = "path_join IMG_DIR (cache_file_name h1 (sha1 E buf) ?e1)"
  let ?d2 = "path_join IMG_DIR (cache_file_name h2 (sha1 E buf) ?e2)"
  have d1: "download E k1 u1 h1 w = (r1, w1)"
    using call1 urls miss1 by (simp add: downloadFileCached_def)
  have d2: "download E k2 u2 h2 w1 = (r2, w2)"
    using call2 urls miss2 by (simp add: downloadFileCached_def)
  note s1 = download_stores [OF resp1 refl, of h1 k1]
  note s2 = download_stores [OF resp2 refl, of h2 k2]
  have same: "?d2 = ?d1 \<longleftrightarrow> h1 = h2 \<and> ?e1 = ?e2"
    using cache_file_name_eq [where ?e1.0 = ?e1 and ?e2.0 = ?e2 and ?h1.0 = h1 and ?h2.0 = h2
        and hash = "sha1 E buf", OF safeExtFromUrl_no_dot safeExtFromUrl_no_dot]
    by (auto simp add: path_join_def)
  have ex: "fs_existsSync w1 ?d2 \<longleftrightarrow> ?d2 = ?d1 \<or> fs_existsSync w ?d2"
    using d1 s1 wr1 by (auto simp add: fs_existsSync_def split: if_splits)
  have r: "r1 = Return (Some (''./images/'' @ cache_file_name h1 (sha1 E buf) ?e1))"
    "r2 = Return (Some (''./images/'' @ cache_file_name h2 (sha1 E buf) ?e2))"
    "map_option a_local (images (mem w2) k1)
       = Some (''./images/'' @ cache_file_name h1 (sha1 E buf) ?e1)"
    "map_option a_local (images (mem w2) k2)
       = Some (''./images/'' @ cache_file_name h2 (sha1 E buf) ?e2)"
    using d1 d2 s1 s2 wr1 wr2 keys by auto
  have eff: "files w2 = (if fs_existsSync w1 ?d2 then files w1 else (files w1)(?d2 \<mapsto> Bytes buf))"
    "trace w2 = trace w1 @ [HttpGet u2] @ (if fs_existsSync w1 ?d2 then [] else [FileWrite ?d2])"
    using d2 s2 wr2 by auto
  show ?thesis
    using r eff ex same by (simp add: cache_file_name_def)
qed

lemma dedup_first_value:
  "dedup_first =
     (Return (Some ''./images/image-0123456789ab.png''),
      \<lparr>mem = empty_state\<lparr>images := [''block:b1:image'' \<mapsto>
          \<lparr>a_local = ''./images/image-0123456789ab.png'',
           a_hash = ''sha1:0123456789abcdef0123456789abcdef01234567'',
           a_size = length ''PNG'', a_updated = ''2024-05-01T00:00:00.000Z'',
           a_last_url = ''https://files.example/s1/picture.png''\<rparr>]\<rparr>,
       files = [''/site/images/image-0123456789ab.png'' \<mapsto> Bytes ''PNG''],
       tick = 2,
       trace = [HttpGet ''https://files.example/s1/picture.png'',
                FileWrite ''/site/images/image-0123456789ab.png'']\<rparr>)"
  by (simp add: dedup_first_def downloadFileCached_def cache_hit_def cached_local_def
      download_def store_download_def env_cdn_def env_offline_def world_empty_def
      empty_state_def fs_existsSync_def fs_writeFileSync_def safeExtFromUrl_def
      cache_file_name_def path_join_def IMG_DIR_def ROOT_def Let_def)

lemmas dedup_defs = downloadFileCached_def cache_hit_def cached_local_def
  download_def store_download_def env_cdn_def env_offline_def world_empty_def
  empty_state_def fs_existsSync_def fs_writeFileSync_def safeExtFromUrl_def
  cache_file_name_def path_join_def IMG_DIR_def ROOT_def strip_dot_slash_def Let_def

lemma dedup_second_value:
  "dedup_second =
     (Return (Some ''./images/image-0123456789ab.png''),
      \<lparr>mem = empty_state\<lparr>images := [''block:b1:image'' \<mapsto>
          \<lparr>a_local = ''./images/image-0123456789ab.png'',
           a_hash = ''sha1:0123456789abcdef0123456789abcdef01234567'',
           a_size = length ''PNG'', a_updated = ''2024-05-01T00:00:00.000Z'',
           a_last_url = ''https://files.example/s1/picture.png''\<rparr>,
         ''block:b2:image'' \<mapsto>
          \<lparr>a_local = ''./images/image-0123456789ab.png'',
           a_hash = ''sha1:0123456789abcdef0123456789abcdef01234567'',
           a_size = length ''PNG'', a_updated = ''2024-05-01T00:00:00.000Z'',
           a_last_url = ''https://files.example/s2/picture.png''\<rparr>]\<rparr>,
       files = [''/site/images/image-0123456789ab.png'' \<mapsto> Bytes ''PNG''],
       tick = 4,
       trace = [HttpGet ''https://files.example/s1/picture.png'',
                FileWrite ''/site/images/image-0123456789ab.png'',
                HttpGet ''https://files.example/s2/picture.png'']\<rparr>)"
  by (simp add: dedup_second_def dedup_first_value dedup_defs)

lemma dedup_third_value:
  "dedup_third =
     (Return (Some ''./images/cover-0123456789ab.png''),
      \<lparr>mem = empty_state\<lparr>images := [''block:b1:image'' \<mapsto>
          \<lparr>a_local = ''./images/image-0123456789ab.png'',
           a_hash = ''sha1:0123456789abcdef0123456789abcdef01234567'',
           a_size = length ''PNG'', a_updated = ''2024-05-01T00:00:00.000Z'',
           a_last_url = ''https://files.example/s1/picture.png''\<rparr>,
         ''block:b2:image'' \<mapsto>
          \<lparr>a_local = ''./images/image-0123456789ab.png'',
           a_hash = ''sha1:0123456789abcdef0123456789abcdef01234567'',
           a_size = length ''PNG'', a_updated = ''2024-05-01T00:00:00.000Z'',
           a_last_url = ''https://files.example/s2/picture.png''\<rparr>,
         ''page:p1:cover'' \<mapsto>
          \<lparr>a_local = ''./images/cover-0123456789ab.png'',
           a_hash = ''sha1:0123456789abcdef0123456789abcdef01234567'',
           a_size = length ''PNG'', a_updated = ''2024-05-01T00:00:00.000Z'',
           a_last_url = ''https://files.example/s3/picture.png''\<rparr>]\<rparr>,
       files = [''/site/images/image-0123456789ab.png'' \<mapsto> Bytes ''PNG'',
                ''/site/images/cover-0123456789ab.png'' \<mapsto> Bytes ''PNG''],
       tick = 6,
       trace = [HttpGet ''https://files.example/s1/picture.png'',
                FileWrite ''/site/images/image-0123456789ab.png'',
                HttpGet ''https://files.example/s2/picture.png'',
                HttpGet ''https://files.example/s3/picture.png'',
                FileWrite ''/site/images/cover-0123456789ab.png'']\<rparr>)"
  by (simp add: dedup_third_def dedup_second_value dedup_defs)

theorem downloadFileCached_content_dedup_witness:
  "fst dedup_first = Return (Some ''./images/image-0123456789ab.png'')
   \<and> fst dedup_second = Return (Some ''./images/image-0123456789ab.png'')
   \<and> files (snd dedup_second) = files (snd dedup_first)
   \<and> trace (snd dedup_second) =
       [HttpGet ''https://files.example/s1/picture.png'',
        FileWrite ''/site/images/image-0123456789ab.png'',
        HttpGet ''https://files.example/s2/picture.png'']
   \<and> fst dedup_third = Return (Some ''./images/cover-0123456789ab.png'')
   \<and> trace (snd dedup_third) = trace (snd dedup_second) @
       [HttpGet ''https://files.example/s3/picture.png'',
        FileWrite ''/site/images/cover-0123456789ab.png'']
   \<and> fst dedup_fourth = Return (Some ''./images/image-0123456789ab.png'')
   \<and> trace (snd dedup_fourth) = trace (snd dedup_third) @
       [HttpGet ''https://files.example/s4/picture.png'']
   \<and> files (snd dedup_fourth) =
       [''/site/images/image-0123456789ab.png'' \<mapsto> Bytes ''PNG'',
        ''/site/images/cover-0123456789ab.png'' \<mapsto> Bytes ''PNG'']"
proof -
  have c1: "downloadFileCached env_cdn ''block:b1:image''
       (Some ''https://files.example/s1/picture.png'') ''image'' world_empty
       = (fst dedup_first, snd dedup_first)"
    and c2: "downloadFileCached env_cdn ''block:b2:image''
       (Some ''https://files.example/s2/picture.png'') ''image'' (snd dedup_first)
       = (fst dedup_second, snd dedup_second)"
    and c3: "downloadFileCached env_cdn ''page:p1:cover''
       (Some ''https://files.example/s3/picture.png'') ''cover'' (snd dedup_second)
       = (fst dedup_third, snd dedup_third)"
    and c4: "downloadFileCached env_cdn ''block:b3:image''
       (Some ''https://files.example/s4/picture.png'') ''image'' (snd dedup_third)
       = (fst dedup_fourth, snd dedup_fourth)"
    by (simp_all add: dedup_first_def dedup_second_def dedup_third_def dedup_fourth_def)
  have m: "\<not> cache_hit world_empty ''block:b1:image''"
    "\<not> cache_hit (snd dedup_first) ''block:b2:image''"
    "\<not> cache_hit (snd dedup_second) ''page:p1:cover''"
    "\<not> cache_hit (snd dedup_third) ''block:b3:image''"
    by (simp_all add: dedup_first_value dedup_second_value dedup_third_value
        cache_hit_def cached_local_def world_empty_def empty_state_def)
  have r: "http_fetch env_cdn t u = HttpResponse True 200 (Some ''PNG'')" for t u
    by (simp add: env_cdn_def)
  have wr: "writable env_cdn p" for p
    by (simp add: env_cdn_def)
  have ext: "safeExtFromUrl env_cdn u ''bin'' = ''png''" for u
    by (simp add: safeExtFromUrl_def env_cdn_def)
  have sha: "sha1 env_cdn b = ''0123456789abcdef0123456789abcdef01234567''" for b
    by (simp add: env_cdn_def)
  note A = downloadFileCached_content_dedup [OF c1 c2 _ _ _ m(1) m(2) r r wr wr]
  note B = downloadFileCached_content_dedup [OF c2 c3 _ _ _ m(2) m(3) r r wr wr]
  note C = downloadFileCached_content_dedup [OF c3 c4 _ _ _ m(3) m(4) r r wr wr]
  have a: "fst dedup_first = Return (Some ''./images/image-0123456789ab.png'')"
    "fst dedup_second = Return (Some ''./images/image-0123456789ab.png'')"
    "files (snd dedup_second) = files (snd dedup_first)"
    "trace (snd dedup_second) = trace (snd dedup_first) @ [HttpGet ''https://files.example/s2/picture.png'']"
    using A by (simp_all add: ext sha)
  have b: "fst dedup_third = Return (Some ''./images/cover-0123456789ab.png'')"
    "files (snd dedup_third) = (files (snd dedup_second))
        (''/site/images/cover-0123456789ab.png'' \<mapsto> Bytes ''PNG'')"
    "trace (snd dedup_third) = trace (snd dedup_second) @
       [HttpGet ''https://files.example/s3/picture.png'',
        FileWrite ''/site/images/cover-0123456789ab.png'']"
    using B
    by (simp_all add: ext sha dedup_first_value fs_existsSync_def cache_file_name_def
        path_join_def IMG_DIR_def ROOT_def)
  have c: "fst dedup_fourth = Return (Some ''./images/image-0123456789ab.png'')"
    "files (snd dedup_fourth) = files (snd dedup_third)"
    "trace (snd dedup_fourth) = trace (snd dedup_third) @
       [HttpGet ''https://files.example/s4/picture.png'']"
    using C
    by (simp_all add: ext sha dedup_second_value fs_existsSync_def cache_file_name_def
        path_join_def IMG_DIR_def ROOT_def)
  show ?thesis
    using a b c by (simp add: dedup_first_value)
qed

section \<open>Sequencing\<close>

lemma then_do_Return: "m w = (Return x, w1) \<Longrightarrow> then_do m f w = f x w1"
  by (simp add: then_do_def)

lemma then_do_Throw: "m w = (Throw e, w1) \<Longrightarrow> then_do m f w = (Throw e, w1)"
  by (simp add: then_do_def)

lemma then_do_Diverge: "m w = (Diverge, w1) \<Longrightarrow> then_do m f w = (Diverge, w1)"
  by (simp add: then_do_def)

lemma then_do_eq_Return:
  "then_do m f w = (Return y, w') \<longleftrightarrow> (\<exists>x w1. m w = (Return x, w1) \<and> f x w1 = (Return y, w'))"
  by (auto simp add: then_do_def split: prod.splits outcome.splits)

lemma return_eq: "return x w = (r, w') \<longleftrightarrow> r = Return x \<and> w' = w"
  by (auto simp add: return_def)

section \<open>Effects of the building blocks\<close>

lemma emitsI:
  assumes "\<And>w. \<exists>evs. trace (snd (m w)) = trace w @ evs \<and> list_all P evs
            \<and> (\<forall>p. FileWrite p \<notin> set evs \<longrightarrow> files (snd (m w)) p = files w p)"
  shows "emits P m"
  using assms by (simp add: emits_def)

lemma emitsD:
  assumes "emits P m" and "m w = (r, w')"
  obtains evs where "trace w' = trace w @ evs" and "list_all P evs"
    and "\<And>p. FileWrite p \<notin> set evs \<Longrightarrow> files w' p = files w p"
proof -
  from assms(1) obtain evs where "trace (snd (m w)) = trace w @ evs" "list_all P evs"
    "\<forall>p. FileWrite p \<notin> set evs \<longrightarrow> files (snd (m w)) p = files w p"
    unfolding emits_def by blast
  with assms(2) that show thesis by simp
qed

lemma emits_silent:
  assumes "\<And>w. trace (snd (m w)) = trace w \<and> files (snd (m w)) = files w"
  shows "emits P m"
  by (rule emitsI, rule exI [of _ "[]"]) (simp add: assms)

lemma emits_return: "emits P (return x)"
  by (rule emits_silent) (simp add: return_def)

lemma emits_then_do:
  assumes m: "emits P m" and f: "\<And>x. emits P (f x)"
  shows "emits P (then_do m f)"
proof (rule emitsI)
  fix w
  obtain r w1 where mw: "m w = (r, w1)" by (cases "m w")
  from emitsD [OF m mw] obtain evs1 where
    e1: "trace w1 = trace w @ evs1" "list_all P evs1"
      "\<And>p. FileWrite p \<notin> set evs1 \<Longrightarrow> files w1 p = files w p" by blast
  show "\<exists>evs. trace (snd (then_do m f w)) = trace w @ evs \<and> list_all P evs
            \<and> (\<forall>p. FileWrite p \<notin> set evs \<longrightarrow> files (snd (then_do m f w)) p = files w p)"
  proof (cases r)
    case (Return x)
    obtain r2 w2 where fw: "f x w1 = (r2, w2)" by (cases "f x w1")
    from emitsD [OF f fw] obtain evs2 where
      e2: "trace w2 = trace w1 @ evs2" "list_all P evs2"
        "\<And>p. FileWrite p \<notin> set evs2 \<Longrightarrow> files w2 p = files w1 p" by blast
    have "then_do m f w = (r2, w2)"
      using mw Return fw by (simp add: then_do_def)
    then show ?thesis
      using e1 e2 by (intro exI [of _ "evs1 @ evs2"]) simp
  next
    case (Throw e)
    then have "then_do m f w = (Throw e, w1)" using mw by (simp add: then_do_def)
    then show ?thesis using e1 by (intro exI [of _ evs1]) simp
  next
    case Diverge
    then have "then_do m f w = (Diverge, w1)" using mw by (simp add: then_do_def)
    then show ?thesis using e1 by (intro exI [of _ evs1]) simp
  qed
qed

lemma emits_one:
  assumes "\<And>w. trace (snd (m w)) = trace w @ [e] \<and> files (snd (m w)) = files w" and "P e"
  shows "emits P m"
  by (rule emitsI, rule exI [of _ "[e]"]) (simp add: assms)

lemma emits_pages_retrieve:
  "P (ApiCall (PagesRetrieve pageId)) \<Longrightarrow> emits P (notion_pages_retrieve E pageId)"
  by (rule emits_one [where e = "ApiCall (PagesRetrieve pageId)"])
     (simp_all add: notion_pages_retrieve_def asked_def)

lemma emits_blocks_children_list:
  "P (ApiCall (BlocksChildrenList blockId cursor))
   \<Longrightarrow> emits P (notion_blocks_children_list E blockId cursor)"
  by (rule emits_one [where e = "ApiCall (BlocksChildrenList blockId cursor)"])
     (simp_all add: notion_blocks_children_list_def asked_def)

lemma emits_databases_query:
  "P (ApiCall (DatabasesQuery db cursor filt))
   \<Longrightarrow> emits P (notion_databases_query E db filt cursor)"
  by (rule emits_one [where e = "ApiCall (DatabasesQuery db cursor filt)"])
     (simp_all add: notion_databases_query_def asked_def)

lemma emits_writeFileSync: "P (FileWrite p) \<Longrightarrow> emits P (fs_writeFileSync E p c)"
proof (rule emitsI)
  fix w
  assume P: "P (FileWrite p)"
  show "\<exists>evs. trace (snd (fs_writeFileSync E p c w)) = trace w @ evs \<and> list_all P evs
     \<and> (\<forall>q. FileWrite q \<notin> set evs \<longrightarrow> files (snd (fs_writeFileSync E p c w)) q = files w q)"
  proof (cases "writable E p")
    case True
    then show ?thesis using P
      by (intro exI [of _ "[FileWrite p]"]) (auto simp add: fs_writeFileSync_def)
  next
    case False
    then show ?thesis by (intro exI [of _ "[]"]) (simp add: fs_writeFileSync_def)
  qed
qed

lemma withRetry_from_effects:
  "emits P fn \<Longrightarrow> \<forall>ms. P (Sleep ms) \<Longrightarrow>
   \<exists>evs. trace (snd (withRetry_from n fn tries w)) = trace w @ evs \<and> list_all P evs
     \<and> (\<forall>p. FileWrite p \<notin> set evs \<longrightarrow> files (snd (withRetry_from n fn tries w)) p = files w p)"
proof (induction n fn tries w rule: withRetry_from.induct)
  case (1 n fn tries w)
  note fn = "1.prems"(1) and sl = "1.prems"(2)
  obtain r w1 where fw: "fn w = (r, w1)" by (cases "fn w")
  from emitsD [OF fn fw] obtain evs1 where
    e1: "trace w1 = trace w @ evs1" "list_all P evs1"
      "\<And>p. FileWrite p \<notin> set evs1 \<Longrightarrow> files w1 p = files w p" by blast
  show ?case
  proof (cases "\<exists>e. r = Throw e \<and> \<not> tries \<le> Suc n")
    case True
    then obtain e where r: "r = Throw e" and more: "\<not> tries \<le> Suc n" by blast
    let ?w2 = "sleep (retry_wait (Suc n)) w1"
    from "1.IH" [OF fw [symmetric] r more fn sl] obtain evs2 where
      e2: "trace (snd (withRetry_from (Suc n) fn tries ?w2)) = trace ?w2 @ evs2"
        "list_all P evs2"
        "\<forall>p. FileWrite p \<notin> set evs2 \<longrightarrow>
           files (snd (withRetry_from (Suc n) fn tries ?w2)) p = files ?w2 p"
      by blast
    have step: "withRetry_from n fn tries w = withRetry_from (Suc n) fn tries ?w2"
      using fw r more by (simp add: withRetry_from.simps [of n])
    show ?thesis
      unfolding step
      using e1 e2 sl
      by (intro exI [of _ "evs1 @ [Sleep (retry_wait (Suc n))] @ evs2"])
         (simp add: sleep_def)
  next
    case False
    then have "withRetry_from n fn tries w = (r, w1)"
      using fw by (cases r) (auto simp add: withRetry_from.simps [of n])
    then show ?thesis using e1 by (intro exI [of _ evs1]) simp
  qed
qed

lemma emits_withRetry_from:
  "emits P fn \<Longrightarrow> (\<And>ms. P (Sleep ms)) \<Longrightarrow> emits P (withRetry_from n fn tries)"
  by (rule emitsI) (simp add: withRetry_from_effects)

lemma emits_withRetry:
  "emits P fn \<Longrightarrow> (\<And>ms. P (Sleep ms)) \<Longrightarrow> emits P (withRetry fn tries)"
  by (simp add: withRetry_def emits_withRetry_from)

lemma emits_paginate:
  assumes "\<And>cursor. emits P (call cursor)" and "\<And>ms. P (Sleep ms)"
  shows "emits P (paginate fuel call cursor all)"
proof (induction fuel arbitrary: cursor all)
  case 0
  show ?case by (rule emits_silent) simp
next
  case (Suc fuel)
  show ?case
    by (auto intro!: emits_then_do emits_withRetry emits_return assms Suc)
qed


lemma emits_if: "emits P a \<Longrightarrow> emits P b \<Longrightarrow> emits P (if c then a else b)"
  by simp

lemma emits_download:
  assumes "P (HttpGet u)" and "\<And>n. P (FileWrite (path_join IMG_DIR n))"
  shows "emits P (download E key u h)"
proof (rule emitsI)
  fix w :: world
  let ?w1 = "w\<lparr>tick := tick w + 1, trace := trace w @ [HttpGet u]\<rparr>"
  have store: "\<exists>evs. trace (snd (store_download E key u h buf c ?w1)) = trace w @ evs
         \<and> list_all P evs
         \<and> (\<forall>p. FileWrite p \<notin> set evs \<longrightarrow> files (snd (store_download E key u h buf c ?w1)) p = files w p)"
    for buf c
  proof -
    let ?dst = "path_join IMG_DIR (cache_file_name h (sha1 E buf) (safeExtFromUrl E u ''bin''))"
    show ?thesis
    proof (cases "\<not> fs_existsSync ?w1 ?dst \<and> writable E ?dst")
      case True
      then show ?thesis using assms
        by (intro exI [of _ "[HttpGet u, FileWrite ?dst]"])
           (auto simp add: store_download_def Let_def fs_writeFileSync_def)
    next
      case False
      then show ?thesis using assms
        by (intro exI [of _ "[HttpGet u]"])
           (auto simp add: store_download_def Let_def fs_writeFileSync_def)
    qed
  qed
  have plain: "\<exists>evs. trace ?w1 = trace w @ evs \<and> list_all P evs
         \<and> (\<forall>p. FileWrite p \<notin> set evs \<longrightarrow> files ?w1 p = files w p)"
    using assms by (intro exI [of _ "[HttpGet u]"]) simp
  show "\<exists>evs. trace (snd (download E key u h w)) = trace w @ evs \<and> list_all P evs
     \<and> (\<forall>p. FileWrite p \<notin> set evs \<longrightarrow> files (snd (download E key u h w)) p = files w p)"
    using store plain
    by (simp add: download_def Let_def split: http_outcome.splits option.splits)
qed

lemma emits_downloadFileCached:
  assumes "\<And>u. P (HttpGet u)" and "\<And>n. P (FileWrite (path_join IMG_DIR n))"
  shows "emits P (downloadFileCached E key url h)"
proof -
  have silent: "emits P (\<lambda>w. (Return (cached_local w key), w))"
    by (rule emits_silent) simp
  have "downloadFileCached E key url h =
      (case url of None \<Rightarrow> (\<lambda>w. (Return (cached_local w key), w))
       | Some u \<Rightarrow> (\<lambda>w. if u = [] \<or> cache_hit w key then (Return (cached_local w key), w)
                         else download E key u h w))"
    by (rule ext) (simp add: downloadFileCached_def split: option.splits)
  moreover have "emits P (\<lambda>w. if u = [] \<or> cache_hit w key then (Return (cached_local w key), w)
                         else download E key u h w)" for u
  proof (rule emitsI)
    fix w
    show "\<exists>evs. trace (snd (if u = [] \<or> cache_hit w key then (Return (cached_local w key), w)
                         else download E key u h w)) = trace w @ evs \<and> list_all P evs
       \<and> (\<forall>p. FileWrite p \<notin> set evs \<longrightarrow> files (snd (if u = [] \<or> cache_hit w key then (Return (cached_local w key), w)
                         else download E key u h w)) p = files w p)"
    proof (cases "u = [] \<or> cache_hit w key")
      case True
      then show ?thesis by (intro exI [of _ "[]"]) simp
    next
      case False
      have "emits P (download E key u h)" using assms by (rule emits_download)
      then show ?thesis using False unfolding emits_def by simp
    qed
  qed
  ultimately show ?thesis using silent by (simp split: option.splits)
qed

lemma benign_download: "benign P \<Longrightarrow> emits P (downloadFileCached E key url h)"
  by (rule emits_downloadFileCached) (simp_all add: benign_def)

lemma emits_cache_block_media: "benign P \<Longrightarrow> emits P (cache_block_media E b)"
  by (auto simp add: cache_block_media_def split: block_kind.splits
      intro!: emits_then_do emits_return benign_download)

lemma emits_listBlocks_both:
  assumes "benign P"
  shows "emits P (listBlocks E fuel blockId)" and "emits P (listBlocks_each E fuel bs)"
proof (induction E fuel blockId and E fuel bs rule: listBlocks_listBlocks_each.induct)
  case (1 E blockId)
  show ?case by (rule emits_silent) simp
next
  case (2 E fuel blockId)
  have "emits P (paginate fuel (notion_blocks_children_list E blockId) None [])"
    using assms by (intro emits_paginate emits_blocks_children_list) (simp_all add: benign_def)
  then show ?case using 2 by (auto intro!: emits_then_do)
next
  case (3 E fuel)
  show ?case by (simp add: emits_return)
next
  case (4 E fuel b bs)
  show ?case
    using 4 assms
    by (auto intro!: emits_then_do emits_return emits_cache_block_media)
qed


lemma emits_fetch_changed_page:
  assumes "benign P"
  shows "emits P (fetch_changed_page E fuel pageId aliasOut meta prev)"
proof -
  have w: "emits P (fs_writeFileSync E (page_file pageId aliasOut) c)" for c
    using assms by (intro emits_writeFileSync) (simp add: benign_def page_file_def)
  show ?thesis
    unfolding fetch_changed_page_def Let_def
    using assms
    by (intro emits_then_do emits_listBlocks_both emits_if benign_download w emits_silent)
       simp_all
qed

lemma emits_retrieve:
  assumes "\<And>ms. P (Sleep ms)" and "P (ApiCall (PagesRetrieve pageId))"
  shows "emits P (withRetry (notion_pages_retrieve E pageId) tries)"
  using assms by (intro emits_withRetry emits_pages_retrieve)

lemma emits_pointwise:
  assumes "\<And>w. \<exists>m'. emits P m' \<and> m w = m' w"
  shows "emits P m"
proof (rule emitsI)
  fix w
  from assms obtain m' where "emits P m'" and "m w = m' w" by blast
  then show "\<exists>evs. trace (snd (m w)) = trace w @ evs \<and> list_all P evs
            \<and> (\<forall>p. FileWrite p \<notin> set evs \<longrightarrow> files (snd (m w)) p = files w p)"
    unfolding emits_def by simp
qed

lemma emits_fetchPageIfChanged:
  assumes "benign P"
  shows "emits P (fetchPageIfChanged E fuel pageId aliasOut)"
  unfolding fetchPageIfChanged_def
proof (rule emits_then_do)
  show "emits P (withRetry (notion_pages_retrieve E pageId) 5)"
    using assms by (intro emits_retrieve) (simp_all add: benign_def)
next
  fix meta
  show "emits P (\<lambda>w. let prev = pages (mem w) pageId
          in if \<not> page_changed prev meta then (Return None, w)
             else fetch_changed_page E fuel pageId aliasOut meta prev w)"
  proof (rule emits_pointwise)
    fix w :: world
    show "\<exists>m'. emits P m' \<and> (let prev = pages (mem w) pageId
          in if \<not> page_changed prev meta then (Return None, w)
             else fetch_changed_page E fuel pageId aliasOut meta prev w) = m' w"
    proof (cases "page_changed (pages (mem w) pageId) meta")
      case True
      then show ?thesis
        using emits_fetch_changed_page [OF assms]
        by (intro exI [of _ "fetch_changed_page E fuel pageId aliasOut meta (pages (mem w) pageId)"])
           simp
    next
      case False
      then show ?thesis
        by (intro exI [of _ "return None"]) (simp add: emits_return return_def)
    qed
  qed
qed

section \<open>The in-memory state under a retried call\<close>

lemma withRetry_from_mem:
  "\<forall>w. mem (snd (fn w)) = mem w \<Longrightarrow> mem (snd (withRetry_from n fn tries w)) = mem w"
proof (induction n fn tries w rule: withRetry_from.induct)
  case (1 n fn tries w)
  obtain r w1 where fw: "fn w = (r, w1)" by (cases "fn w")
  then have m1: "mem w1 = mem w" using "1.prems" by (metis snd_conv)
  show ?case
  proof (cases "\<exists>e. r = Throw e \<and> \<not> tries \<le> Suc n")
    case True
    then obtain e where r: "r = Throw e" and more: "\<not> tries \<le> Suc n" by blast
    have "withRetry_from n fn tries w =
        withRetry_from (Suc n) fn tries (sleep (retry_wait (Suc n)) w1)"
      using fw r more by (simp add: withRetry_from.simps [of n])
    then show ?thesis
      using "1.IH" [OF fw [symmetric] r more "1.prems"] m1 by (simp add: sleep_def)
  next
    case False
    then have "withRetry_from n fn tries w = (r, w1)"
      using fw by (cases r) (auto simp add: withRetry_from.simps [of n])
    then show ?thesis using m1 by simp
  qed
qed

lemma retrieve_keeps:
  assumes "withRetry (notion_pages_retrieve E pageId) tries w = (r, w1)"
  shows "mem w1 = mem w" and "files w1 = files w"
    and "\<exists>evs. trace w1 = trace w @ evs \<and> list_all is_retrieval_event evs"
proof -
  have "mem (snd (withRetry (notion_pages_retrieve E pageId) tries w)) = mem w"
    unfolding withRetry_def
    by (rule withRetry_from_mem) (simp add: notion_pages_retrieve_def asked_def)
  then show "mem w1 = mem w" using assms by simp
  have "emits is_retrieval_event (withRetry (notion_pages_retrieve E pageId) tries)"
    by (rule emits_retrieve) (simp_all add: is_retrieval_event_def)
  from emitsD [OF this assms] obtain evs where
    e: "trace w1 = trace w @ evs" "list_all is_retrieval_event evs"
      "\<And>p. FileWrite p \<notin> set evs \<Longrightarrow> files w1 p = files w p" by blast
  show "\<exists>evs. trace w1 = trace w @ evs \<and> list_all is_retrieval_event evs"
    using e by blast
  have "FileWrite p \<notin> set evs" for p
    using e(2) by (auto simp add: list_all_iff is_retrieval_event_def)
  then show "files w1 = files w" using e(3) by auto
qed

section \<open>Properties of the page sync\<close>

lemma page_skip:
  assumes meta: "withRetry (notion_pages_retrieve E pageId) 5 w = (Return meta, w1)"
    and prev: "pages (mem w) pageId = Some prev"
    and old: "\<not> ps_last_edited_time prev < page_last_edited_time meta"
  shows "fetchPageIfChanged E fuel pageId aliasOut w = (Return None, w1)"
  using assms retrieve_keeps(1) [OF meta]
  by (simp add: fetchPageIfChanged_def then_do_def page_changed_def)

lemma page_changed_run:
  assumes meta: "withRetry (notion_pages_retrieve E pageId) 5 w = (Return meta, w1)"
    and new: "pages (mem w) pageId = None
              \<or> (\<exists>prev. pages (mem w) pageId = Some prev
                    \<and> ps_last_edited_time prev < page_last_edited_time meta)"
    and run: "fetchPageIfChanged E fuel pageId aliasOut w = (Return r, w')"
  shows "\<exists>pl w2. r = Some pl \<and> page pl = meta
      \<and> listBlocks E fuel pageId w1 = (Return (blocks pl), w2)
      \<and> files w' (page_file pageId aliasOut) = Some (PageJson pl)
      \<and> pages (mem w') pageId =
          Some \<lparr>ps_last_edited_time = page_last_edited_time meta,
                ps_cover_local = js_or (cover_local pl) None\<rparr>"
proof -
  have ch: "page_changed (pages (mem w1) pageId) meta"
    using new retrieve_keeps(1) [OF meta] by (auto simp add: page_changed_def)
  have "fetch_changed_page E fuel pageId aliasOut meta (pages (mem w1) pageId) w1 = (Return r, w')"
    using run ch meta by (simp add: fetchPageIfChanged_def then_do_def)
  then show ?thesis
    unfolding fetch_changed_page_def Let_def then_do_eq_Return
    by (auto simp add: fs_writeFileSync_def split: if_splits)
qed


lemma page_second_sync:
  assumes first: "fetchPageIfChanged E fuel pageId aliasOut w = (Return (Some pl), w1)"
    and again: "withRetry (notion_pages_retrieve E pageId) 5 w1 = (Return meta2, w2)"
    and same: "page_last_edited_time meta2 = page_last_edited_time (page pl)"
  shows "fetchPageIfChanged E fuel2 pageId alias2 w1 = (Return None, w2)"
proof -
  from first obtain meta w0 where
    meta: "withRetry (notion_pages_retrieve E pageId) 5 w = (Return meta, w0)"
    and rest: "(let prev = pages (mem w0) pageId
          in if \<not> page_changed prev meta then (Return None, w0)
             else fetch_changed_page E fuel pageId aliasOut meta prev w0) = (Return (Some pl), w1)"
    unfolding fetchPageIfChanged_def then_do_eq_Return by blast
  have ch: "page_changed (pages (mem w) pageId) meta"
    using rest retrieve_keeps(1) [OF meta] by (auto simp add: Let_def split: if_splits)
  then have new: "pages (mem w) pageId = None
              \<or> (\<exists>prev. pages (mem w) pageId = Some prev
                    \<and> ps_last_edited_time prev < page_last_edited_time meta)"
    by (auto simp add: page_changed_def split: option.splits)
  from page_changed_run [OF meta new first] obtain p where
    "page pl = meta" "pages (mem w1) pageId = Some p"
    "ps_last_edited_time p = page_last_edited_time meta"
    by auto
  with same show ?thesis
    by (intro page_skip [OF again]) auto
qed

text \<open>
  C4, in three parts, each for a metadata retrieval that returns.
  \<^item> A prior state exists and the fetched stamp is not greater than the stored one: the
    call returns \<^verbatim>\<open>null\<close> in the world the retrieval left, in which state and disk are as
    before and the only new events are those of the retrieval (no block request, no
    write).
  \<^item> No prior state, or a greater stamp: the page is treated as changed. The block tree
    is fetched, and when the call returns it returns the payload, has written it to the
    page's snapshot file and has recorded the new stamp.
  \<^item> A second sync right after one that returned a payload, the remote's stamp being
    the same: it returns \<^verbatim>\<open>null\<close>, with no tree fetch and no write.
\<close>

theorem fetchPageIfChanged_change_detection:
  "(withRetry (notion_pages_retrieve E pageId) 5 w = (Return meta, wm)
      \<and> pages (mem w) pageId = Some prev
      \<and> \<not> ps_last_edited_time prev < page_last_edited_time meta
    \<longrightarrow> fetchPageIfChanged E fuel pageId aliasOut w = (Return None, wm)
        \<and> mem wm = mem w \<and> files wm = files w
        \<and> (\<exists>evs. trace wm = trace w @ evs \<and> list_all is_retrieval_event evs))
   \<and> (withRetry (notion_pages_retrieve E pageId) 5 w = (Return meta, wm)
      \<and> (pages (mem w) pageId = None
          \<or> (\<exists>p. pages (mem w) pageId = Some p
                \<and> ps_last_edited_time p < page_last_edited_time meta))
      \<and> fetchPageIfChanged E fuel pageId aliasOut w = (Return r, w')
    \<longrightarrow> (\<exists>pl wt. r = Some pl \<and> page pl = meta
          \<and> listBlocks E fuel pageId wm = (Return (blocks pl), wt)
          \<and> files w' (page_file pageId aliasOut) = Some (PageJson pl)
          \<and> pages (mem w') pageId =
              Some \<lparr>ps_last_edited_time = page_last_edited_time meta,
                    ps_cover_local = js_or (cover_local pl) None\<rparr>))
   \<and> (fetchPageIfChanged E fuel pageId aliasOut w = (Return (Some done), wa)
      \<and> withRetry (notion_pages_retrieve E pageId) 5 wa = (Return again, wb)
      \<and> page_last_edited_time again = page_last_edited_time (page done)
    \<longrightarrow> fetchPageIfChanged E fuel pageId aliasOut wa = (Return None, wb)
        \<and> mem wb = mem wa \<and> files wb = files wa
        \<and> (\<exists>evs. trace wb = trace wa @ evs \<and> list_all is_retrieval_event evs))"
  using page_skip [of E pageId w meta wm prev fuel aliasOut]
    retrieve_keeps [of E pageId 5 w "Return meta" wm]
    page_changed_run [of E pageId w meta wm fuel aliasOut r w']
    page_second_sync [of E fuel pageId aliasOut w "done" wa again wb fuel aliasOut]
    retrieve_keeps [of E pageId 5 wa "Return again" wb]
  by blast

lemma first_sync_value:
  "first_sync =
     (Return (Some \<lparr>page = steady_meta, blocks = [], cover_local = None\<rparr>),
      \<lparr>mem = empty_state\<lparr>pages := [''p1'' \<mapsto>
          \<lparr>ps_last_edited_time = ''2024-05-01T10:00:00.000Z'', ps_cover_local = None\<rparr>]\<rparr>,
       files = [''/site/notion-data/page-home.json'' \<mapsto>
          PageJson \<lparr>page = steady_meta, blocks = [], cover_local = None\<rparr>],
       tick = 2,
       trace = [ApiCall (PagesRetrieve ''p1''), ApiCall (BlocksChildrenList ''p1'' None),
                FileWrite ''/site/notion-data/page-home.json'']\<rparr>)"
  by (simp add: first_sync_def fetchPageIfChanged_def fetch_changed_page_def then_do_def
      withRetry_def withRetry_from.simps notion_pages_retrieve_def
      notion_blocks_children_list_def asked_def settle_def env_steady_def env_cdn_def
      env_offline_def world_empty_def empty_state_def page_changed_def steady_meta_def
      numeral_2_eq_2 return_def cover_url_def truthy_def js_or_def cached_local_def
      fs_writeFileSync_def page_file_def path_join_def OUT_DIR_def ROOT_def Let_def)

theorem fetchPageIfChanged_change_detection_witness:
  "fst first_sync = Return (Some \<lparr>page = steady_meta, blocks = [], cover_local = None\<rparr>)
   \<and> second_sync = (Return None, asked (PagesRetrieve ''p1'') (snd first_sync))
   \<and> files (snd second_sync) = files (snd first_sync)
   \<and> trace (snd second_sync) = trace (snd first_sync) @ [ApiCall (PagesRetrieve ''p1'')]"
proof -
  let ?pl = "\<lparr>page = steady_meta, blocks = [], cover_local = None\<rparr>"
  let ?wb = "asked (PagesRetrieve ''p1'') (snd first_sync)"
  have first: "fetchPageIfChanged env_steady 2 ''p1'' (Some ''home'') world_empty =
      (Return (Some ?pl), snd first_sync)"
    unfolding first_sync_def [symmetric] by (simp add: first_sync_value)
  have again: "withRetry (notion_pages_retrieve env_steady ''p1'') 5 (snd first_sync) =
      (Return steady_meta, ?wb)"
    by (simp add: withRetry_def withRetry_from.simps notion_pages_retrieve_def settle_def
        env_steady_def env_cdn_def env_offline_def)
  have second: "second_sync = (Return None, ?wb)"
    unfolding second_sync_def
    using fetchPageIfChanged_change_detection [where E = env_steady and fuel = 2
        and pageId = "''p1''" and aliasOut = "Some ''home''" and w = world_empty
        and ?done = ?pl and wa = "snd first_sync" and again = steady_meta and wb = ?wb]
      first again
    by simp
  show ?thesis
    unfolding second by (simp add: first_sync_value asked_def)
qed

section \<open>The row index\<close>

lemma map_get_map_set: "map_get (map_set k v m) k' = (if k' = k then Some v else map_get m k')"
  by (induction k v m rule: map_set.induct) auto

lemma keys_map_set: "fst ` set (map_set k v m) = insert k (fst ` set m)"
  by (induction k v m rule: map_set.induct) (simp_all add: insert_commute)

lemma distinct_map_set: "distinct (map fst m) \<Longrightarrow> distinct (map fst (map_set k v m))"
  by (induction k v m rule: map_set.induct) (auto simp add: keys_map_set)

lemma keyed_map_set: "keyed m \<Longrightarrow> k = row_id v \<Longrightarrow> keyed (map_set k v m)"
  by (induction k v m rule: map_set.induct) (simp_all add: keyed_def)

lemma map_set_fresh: "k \<notin> fst ` set m \<Longrightarrow> map_set k v m = m @ [(k, v)]"
  by (induction k v m rule: map_set.induct) auto

lemma map_get_None: "map_get m k = None \<longleftrightarrow> k \<notin> fst ` set m"
  by (induction m k rule: map_get.induct) simp_all

lemma map_get_filter:
  "map_get (filter (\<lambda>kv. fst kv \<in> S) m) k = (if k \<in> S then map_get m k else None)"
  by (induction m) auto

lemma fold_map_set_keys:
  "fst ` set (foldl (\<lambda>m kv. map_set (fst kv) (snd kv) m) m0 es)
     = fst ` set m0 \<union> fst ` set es"
  by (induction es arbitrary: m0) (simp_all add: keys_map_set)

lemma fold_map_set_distinct:
  "distinct (map fst m0) \<Longrightarrow>
   distinct (map fst (foldl (\<lambda>m kv. map_set (fst kv) (snd kv) m) m0 es))"
  by (induction es arbitrary: m0) (simp_all add: distinct_map_set)

lemma fold_map_set_keyed:
  "keyed m0 \<Longrightarrow> keyed es \<Longrightarrow> keyed (foldl (\<lambda>m kv. map_set (fst kv) (snd kv) m) m0 es)"
proof (induction es arbitrary: m0)
  case Nil
  then show ?case by simp
next
  case (Cons e es)
  from Cons.prems have "fst e = row_id (snd e)" and es: "keyed es"
    by (simp_all add: keyed_def)
  with Cons.prems(1) have "keyed (map_set (fst e) (snd e) m0)" and "keyed es"
    by (simp_all add: keyed_map_set)
  then show ?case using Cons.IH by simp
qed

lemma fold_map_set_append:
  "distinct (map fst (m0 @ es)) \<Longrightarrow>
   foldl (\<lambda>m kv. map_set (fst kv) (snd kv) m) m0 es = m0 @ es"
proof (induction es arbitrary: m0)
  case Nil
  then show ?case by simp
next
  case (Cons e es)
  from Cons.prems have "fst e \<notin> fst ` set m0" by auto
  then have "map_set (fst e) (snd e) m0 = m0 @ [e]"
    by (simp add: map_set_fresh)
  then show ?case using Cons.IH [of "m0 @ [e]"] Cons.prems by simp
qed

lemma new_Map_keys: "fst ` set (new_Map es) = fst ` set es"
  by (simp add: new_Map_def fold_map_set_keys)

lemma new_Map_distinct: "distinct (map fst (new_Map es))"
  by (simp add: new_Map_def fold_map_set_distinct)

lemma new_Map_rows_keyed: "keyed (new_Map (map (\<lambda>x. (row_id x, x)) rows))"
  unfolding new_Map_def
  by (rule fold_map_set_keyed) (simp_all add: keyed_def list_all_iff)

lemma new_Map_id: "distinct (map fst es) \<Longrightarrow> new_Map es = es"
  using fold_map_set_append [of "[]" es] by (simp add: new_Map_def)

lemma keyed_rows: "keyed m \<Longrightarrow> map (\<lambda>x. (row_id x, x)) (map snd m) = m"
  by (induction m) (auto simp add: keyed_def)

lemma keyed_ids: "keyed m \<Longrightarrow> map row_id (map snd m) = map fst m"
  by (induction m) (auto simp add: keyed_def)

lemma row_of_index:
  assumes "keyed m" and "distinct (map fst m)"
  shows "row_of (map snd m) k = map_get m k"
proof -
  have "new_Map (map (\<lambda>x. (row_id x, x)) (map snd m)) = new_Map m"
    using assms(1) by (simp only: keyed_rows)
  then show ?thesis
    using assms(2) by (simp only: row_of_def new_Map_id)
qed

lemma keyed_filter: "keyed m \<Longrightarrow> keyed (filter Q m)"
  by (simp add: keyed_def list_all_iff)

lemma distinct_keys_filter: "distinct (map fst m) \<Longrightarrow> distinct (map fst (filter Q m))"
  by (simp add: distinct_map_filter)

lemma keys_filter: "fst ` set (filter (\<lambda>kv. fst kv \<in> S) m) = fst ` set m \<inter> S"
  by (induction m) auto

lemma fold_delete:
  "foldl (\<lambda>m k. if k \<in> S then m else map_delete k m) m ks
     = filter (\<lambda>kv. fst kv \<in> S \<or> fst kv \<notin> set ks) m"
proof (induction ks arbitrary: m)
  case Nil
  then show ?case by simp
next
  case (Cons k ks)
  show ?case
  proof (cases "k \<in> S")
    case True
    then show ?thesis by (auto simp add: Cons.IH intro!: filter_cong)
  next
    case False
    then show ?thesis by (auto simp add: Cons.IH map_delete_def intro!: filter_cong)
  qed
qed

lemma reconcile_filter: "reconcile ids m = filter (\<lambda>kv. fst kv \<in> set ids) m"
  unfolding reconcile_def fold_delete by (auto intro!: filter_cong)

lemma map_get_Some_mem: "map_get m k = Some v \<Longrightarrow> (k, v) \<in> set m"
  by (induction m k rule: map_get.induct) (auto split: if_splits)

lemma map_get_distinct_mem:
  "distinct (map fst m) \<Longrightarrow> (k, v) \<in> set m \<Longrightarrow> map_get m k = Some v"
  by (induction m k rule: map_get.induct) (auto simp add: rev_image_eqI)

lemma set_map_set: "set (map_set k v m) \<subseteq> insert (k, v) (set m)"
  by (induction k v m rule: map_set.induct) auto

lemma set_fold_map_set:
  "set (foldl (\<lambda>m kv. map_set (fst kv) (snd kv) m) m0 es) \<subseteq> set m0 \<union> set es"
proof (induction es arbitrary: m0)
  case Nil
  show ?case by simp
next
  case (Cons e es)
  have "set (map_set (fst e) (snd e) m0) \<subseteq> insert e (set m0)"
    using set_map_set [of "fst e" "snd e" m0] by simp
  with Cons.IH [of "map_set (fst e) (snd e) m0"] show ?case by auto
qed

lemma row_of_Some: "row_of rows k = Some x \<Longrightarrow> x \<in> set rows \<and> row_id x = k"
proof -
  assume "row_of rows k = Some x"
  then have "(k, x) \<in> set (new_Map (map (\<lambda>x. (row_id x, x)) rows))"
    unfolding row_of_def by (rule map_get_Some_mem)
  then have "(k, x) \<in> set (map (\<lambda>x. (row_id x, x)) rows)"
    using set_fold_map_set [of "[]" "map (\<lambda>x. (row_id x, x)) rows"]
    by (auto simp add: new_Map_def)
  then show ?thesis by auto
qed

lemma row_of_distinct:
  assumes "distinct (map row_id rows)" and "x \<in> set rows"
  shows "row_of rows (row_id x) = Some x"
proof -
  let ?es = "map (\<lambda>x. (row_id x, x)) rows"
  have d: "distinct (map fst ?es)" using assms(1) by (simp add: o_def)
  then have "new_Map ?es = ?es" by (rule new_Map_id)
  moreover have "(row_id x, x) \<in> set ?es" using assms(2) by auto
  ultimately show ?thesis
    unfolding row_of_def using d by (simp only: map_get_distinct_mem)
qed

lemma kept_rows:
  assumes same: "row_of rows (row_id x) = row_of stored (row_id x)"
    and d: "distinct (map row_id stored)" and x: "x \<in> set stored"
  shows "x \<in> set rows"
  using row_of_Some [of rows "row_id x" x] row_of_distinct [OF d x] same by simp



section \<open>Syncing the changed rows\<close>

lemma cache_row_cover_result:
  assumes "cache_row_cover E p w = (Return p1, w1)"
  shows "row_id p1 = row_id p \<and> row_last_edited_time p1 = row_last_edited_time p
    \<and> row_cover p1 = row_cover p
    \<and> (truthy (cover_url (row_cover p)) \<or> row_cover_local p1 = row_cover_local p)
    \<and> row_properties p1 = row_properties p \<and> row_blocks p1 = row_blocks p"
  using assms
  by (auto simp add: cache_row_cover_def Let_def then_do_eq_Return return_eq split: if_splits)

lemma kept_media_attach: "kept_media f (attach_local l f)"
  by (simp add: kept_media_def attach_local_def)

lemma cache_files_result:
  assumes "cache_files E keyPrefix i fs w = (Return fs', w')"
  shows "list_all2 kept_media fs fs'"
  using assms
proof (induction fs arbitrary: i fs' w w')
  case Nil
  then show ?case by (simp add: return_eq)
next
  case (Cons f fs)
  from Cons.prems obtain l w1 rest w2 where
    "cache_files E keyPrefix (Suc i) fs w1 = (Return rest, w2)"
    and "fs' = attach_local l f # rest"
    by (auto simp add: then_do_eq_Return return_eq)
  then show ?case
    using Cons.IH by (simp add: kept_media_attach)
qed

lemma cache_properties_result:
  assumes "cache_properties E rowId ps w = (Return ps', w')"
  shows "list_all2 kept_property ps ps'"
  using assms
proof (induction ps arbitrary: ps' w w')
  case Nil
  then show ?case by (simp add: return_eq)
next
  case (Cons np ps)
  obtain propName pr where np: "np = (propName, pr)" by (cases np)
  from Cons.prems obtain pr' w1 rest w2 where
    one: "(case pr of
             FilesProperty fs \<Rightarrow>
               then_do (cache_files E (''page:'' @ rowId @ '':prop:'' @ propName @ '':'') 0 fs)
                 (\<lambda>fs'. return (FilesProperty fs'))
           | OtherProperty t \<Rightarrow> return pr) w = (Return pr', w1)"
    and rest: "cache_properties E rowId ps w1 = (Return rest, w2)"
    and ps': "ps' = (propName, pr') # rest"
    unfolding np by (auto simp add: then_do_eq_Return return_eq)
  have "kept_property (propName, pr) (propName, pr')"
    using one
    by (cases pr)
       (auto simp add: kept_property_def then_do_eq_Return return_eq
          dest: cache_files_result)
  then show ?case
    using Cons.IH [OF rest] ps' np by simp
qed

lemma fetch_row_blocks_result:
  assumes "fetch_row_blocks E fuel fb q w = (Return p2, w2)"
  shows "row_id p2 = row_id q \<and> row_last_edited_time p2 = row_last_edited_time q
    \<and> row_cover p2 = row_cover q \<and> row_cover_local p2 = row_cover_local q
    \<and> row_properties p2 = row_properties q
    \<and> (row_blocks p2 = row_blocks q \<or> (fb \<and> row_blocks p2 \<noteq> None))"
  using assms
  by (auto simp add: fetch_row_blocks_def split: if_splits prod.splits outcome.splits)

text \<open>What becomes of a fetched row, and that the upsert stores just that.\<close>

lemma prepare_row_result:
  assumes "prepare_row E fuel fb p w = (Return v, w')"
  shows "upserted_from fb p v"
proof -
  from assms obtain p1 w1 props w2 where
    c: "cache_row_cover E p w = (Return p1, w1)"
    and ps: "cache_properties E (row_id p1) (row_properties p1) w1 = (Return props, w2)"
    and f: "fetch_row_blocks E fuel fb (p1\<lparr>row_properties := props\<rparr>) w2 = (Return v, w')"
    unfolding prepare_row_def then_do_eq_Return by blast
  show ?thesis
    using cache_row_cover_result [OF c] cache_properties_result [OF ps]
      fetch_row_blocks_result [OF f]
    by (auto simp add: upserted_from_def)
qed

lemma sync_row_result:
  assumes "sync_row E fuel fb p byId w = (Return byId', w')"
  shows "\<exists>v wb. byId' = map_set (row_id p) v byId \<and> upserted_from fb p v
    \<and> prepare_row E fuel fb p w = (Return v, wb)"
proof -
  from assms obtain p2 w3 where
    f: "prepare_row E fuel fb p w = (Return p2, w3)"
    and u: "upsert_row p2 byId w3 = (Return byId', w')"
    unfolding sync_row_def then_do_eq_Return by blast
  from u have "byId' = map_set (row_id p2) p2 byId" by (simp add: upsert_row_def)
  moreover note up = prepare_row_result [OF f]
  moreover have "row_id p2 = row_id p"
    using up by (simp add: upserted_from_def)
  ultimately show ?thesis using f by auto
qed

lemma sync_rows_index:
  assumes "sync_rows E fuel fb ps byId w = (Return byId', w')"
  shows "fst ` set byId' = fst ` set byId \<union> row_id ` set ps
    \<and> (distinct (map fst byId) \<longrightarrow> distinct (map fst byId'))
    \<and> (keyed byId \<longrightarrow> keyed byId')
    \<and> (\<forall>k. k \<notin> row_id ` set ps \<longrightarrow> map_get byId' k = map_get byId k)"
  using assms
proof (induction ps arbitrary: byId w)
  case Nil
  then show ?case by (simp add: return_eq)
next
  case (Cons p ps)
  from Cons.prems obtain byId1 w1 where
    one: "sync_row E fuel fb p byId w = (Return byId1, w1)"
    and rest: "sync_rows E fuel fb ps byId1 w1 = (Return byId', w')"
    by (auto simp add: then_do_eq_Return)
  from sync_row_result [OF one] obtain v where
    v: "byId1 = map_set (row_id p) v byId" "upserted_from fb p v" by blast
  then have idv: "row_id p = row_id v" by (simp add: upserted_from_def)
  note IH = Cons.IH [OF rest]
  show ?case
    using IH v(1) idv
    by (auto simp add: keys_map_set distinct_map_set keyed_map_set map_get_map_set)
qed

lemma sync_rows_changed:
  assumes "sync_rows E fuel fb ps byId w = (Return byId', w')" and "k \<in> row_id ` set ps"
  shows "\<exists>q \<in> set ps. \<exists>v wa wb. row_id q = k \<and> map_get byId' k = Some v
    \<and> upserted_from fb q v \<and> prepare_row E fuel fb q wa = (Return v, wb)"
  using assms
proof (induction ps arbitrary: byId w)
  case Nil
  then show ?case by simp
next
  case (Cons p ps)
  from Cons.prems(1) obtain byId1 w1 where
    one: "sync_row E fuel fb p byId w = (Return byId1, w1)"
    and rest: "sync_rows E fuel fb ps byId1 w1 = (Return byId', w')"
    by (auto simp add: then_do_eq_Return)
  from sync_row_result [OF one] obtain v wb where
    v: "byId1 = map_set (row_id p) v byId" "upserted_from fb p v"
      "prepare_row E fuel fb p w = (Return v, wb)" by blast
  show ?case
  proof (cases "k \<in> row_id ` set ps")
    case True
    from Cons.IH [OF rest True] show ?thesis by auto
  next
    case False
    with Cons.prems(2) have k: "k = row_id p" by auto
    have "map_get byId' k = map_get byId1 k"
      using sync_rows_index [OF rest] False by blast
    then have "map_get byId' k = Some v"
      using v(1) k by (simp add: map_get_map_set)
    then show ?thesis using v(2,3) k by auto
  qed
qed


section \<open>The row loop ends\<close>

text \<open>
  A download never throws: every failure is caught and answered with the cached path.
  So the loop over the changed rows returns from every world, unless it fetches blocks.
\<close>

lemma always_returns_return: "always_returns (return x)"
  by (simp add: always_returns_def return_def)

lemma always_returns_then_do:
  assumes "always_returns m" and "\<And>x. always_returns (f x)"
  shows "always_returns (then_do m f)"
  unfolding always_returns_def
proof
  fix w
  from assms(1) obtain x w1 where "m w = (Return x, w1)"
    unfolding always_returns_def by blast
  moreover from assms(2) obtain y w2 where "f x w1 = (Return y, w2)"
    unfolding always_returns_def by blast
  ultimately show "\<exists>y w'. then_do m f w = (Return y, w')"
    by (simp add: then_do_def)
qed

lemma always_returns_download: "always_returns (downloadFileCached E key url h)"
  unfolding always_returns_def
  by (auto simp add: downloadFileCached_def download_def store_download_def Let_def
      fs_writeFileSync_def split: option.splits http_outcome.splits)

lemma always_returns_cache_files: "always_returns (cache_files E keyPrefix i fs)"
  by (induction fs arbitrary: i)
     (auto intro!: always_returns_then_do always_returns_return always_returns_download)

lemma always_returns_cache_properties: "always_returns (cache_properties E rowId ps)"
  by (induction E rowId ps rule: cache_properties.induct)
     (auto split: property.splits
        intro!: always_returns_then_do always_returns_return always_returns_cache_files)

lemma always_returns_cache_row_cover: "always_returns (cache_row_cover E p)"
  by (auto simp add: cache_row_cover_def Let_def
      intro!: always_returns_then_do always_returns_return always_returns_download)

lemma always_returns_sync_row: "always_returns (sync_row E fuel False p byId)"
proof -
  have "always_returns (fetch_row_blocks E fuel False q)" for q
    by (simp add: always_returns_def fetch_row_blocks_def)
  moreover have "always_returns (upsert_row q byId)" for q
    by (simp add: always_returns_def upsert_row_def)
  ultimately show ?thesis
    unfolding sync_row_def prepare_row_def
    by (intro always_returns_then_do always_returns_cache_row_cover
        always_returns_cache_properties)
qed

lemma always_returns_sync_rows: "always_returns (sync_rows E fuel False ps byId)"
  by (induction ps arbitrary: byId)
     (auto intro!: always_returns_then_do always_returns_return always_returns_sync_row)

section \<open>Properties of the database sync\<close>

lemma emits_no_write:
  assumes "emits (\<lambda>e. \<forall>p. e \<noteq> FileWrite p) m" and "m w = (r, w1)"
  shows "files w1 = files w"
proof -
  from emitsD [OF assms] obtain evs where
    e: "list_all (\<lambda>e. \<forall>p. e \<noteq> FileWrite p) evs"
      "\<And>p. FileWrite p \<notin> set evs \<Longrightarrow> files w1 p = files w p" by blast
  have "FileWrite p \<notin> set evs" for p
    using e(1) by (auto simp add: list_all_iff)
  then show ?thesis using e(2) by auto
qed

lemma query_keeps_files:
  assumes "queryDatabaseIncremental E fuel db since w = (r, w1)"
  shows "files w1 = files w"
proof -
  have "emits (\<lambda>e. \<forall>p. e \<noteq> FileWrite p) (queryDatabaseIncremental E fuel db since)"
    unfolding queryDatabaseIncremental_def
    by (intro emits_paginate emits_databases_query) simp_all
  from emits_no_write [where m = "queryDatabaseIncremental E fuel db since", OF this assms]
  show ?thesis .
qed

lemma read_snapshot_result:
  assumes "read_snapshot (db_file outName) w = (Return rows, w1)"
  shows "w1 = w \<and> rows = stored_rows w outName"
  using assms
  by (auto simp add: read_snapshot_def stored_rows_def split: option.splits content.splits)

text \<open>The two example runs, evaluated.\<close>

lemmas run_defs = syncDatabase_def queryDatabaseIncremental_def fullIdsInDatabase_def
  then_do_def return_def withRetry_def withRetry_from.simps notion_databases_query_def
  asked_def settle_def since_filter_def read_snapshot_def db_file_def path_join_def OUT_DIR_def
  ROOT_def new_Map_def sync_row_def prepare_row_def cache_row_cover_def cover_url_def truthy_def js_or_def
  fetch_row_blocks_def upsert_row_def reconcile_def map_delete_def fs_writeFileSync_def
  env_db_def env_cdn_def env_offline_def world_db_def empty_state_def
  row_a_def row_b_def row_c_def row_a_old_def Let_def

lemma full_run_value:
  "fst full_run = Return ()
   \<and> files (snd full_run) ''/site/notion-data/db-members.json'' = Some (DbJson [row_a, row_c])"
  by (simp add: full_run_def full_options_def run_defs)

lemma incremental_run_value:
  "fst incremental_run = Return ()
   \<and> files (snd incremental_run) ''/site/notion-data/db-members.json''
       = Some (DbJson [row_a, row_b, row_c])"
  by (simp add: incremental_run_def incremental_options_def run_defs)

lemma read_snapshot_readable:
  assumes "snapshot_readable w outName"
  shows "read_snapshot (db_file outName) w = (Return (stored_rows w outName), w)"
  using assms
  by (auto simp add: snapshot_readable_def read_snapshot_def stored_rows_def
      split: option.splits content.splits)

lemma syncDatabase_runs:
  assumes q: "queryDatabaseIncremental E fuel db
                (if fullMode options then None else sinceISO options) w = (Return changed, w1)"
    and rd: "snapshot_readable w outName"
    and sr: "sync_rows E fuel (fetchBlocksForRows options) changed
               (new_Map (map (\<lambda>x. (row_id x, x)) (stored_rows w outName))) w1 = (Return byId, w2)"
    and en: "fullMode options \<Longrightarrow> fullIdsInDatabase E fuel db w2 = (Return ids, w3)"
    and wr: "writable E (db_file outName)"
  shows "\<exists>w'. syncDatabase E fuel db outName options w = (Return (), w')
    \<and> files w' (db_file outName) =
        Some (DbJson (map snd (if fullMode options
                                then filter (\<lambda>kv. fst kv \<in> set ids) byId else byId)))"
proof -
  have f1: "files w1 = files w" using q by (rule query_keeps_files)
  then have rd1: "snapshot_readable w1 outName" and st: "stored_rows w1 outName = stored_rows w outName"
    using rd by (simp_all add: snapshot_readable_def stored_rows_def)
  have rs: "read_snapshot (db_file outName) w1 = (Return (stored_rows w outName), w1)"
    using read_snapshot_readable [OF rd1] st by simp
  show ?thesis
  proof (cases "fullMode options")
    case True
    then show ?thesis
      using q rs sr en [OF True] wr
      by (simp add: syncDatabase_def then_do_def return_def reconcile_filter
          fs_writeFileSync_def)
  next
    case False
    then show ?thesis
      using q rs sr wr
      by (simp add: syncDatabase_def then_do_def return_def fs_writeFileSync_def)
  qed
qed

lemma keyed_filter_rows:
  "keyed m \<Longrightarrow> map snd (filter (\<lambda>kv. fst kv \<in> S) m) = filter (\<lambda>x. row_id x \<in> S) (map snd m)"
  by (induction m) (auto simp add: keyed_def)

lemma syncDatabase_returns_only_so:
  assumes "syncDatabase E fuel db outName options w = (Return (), w')"
  shows "\<exists>changed w1 byId w2.
      queryDatabaseIncremental E fuel db (if fullMode options then None else sinceISO options) w
        = (Return changed, w1)
    \<and> snapshot_readable w outName
    \<and> sync_rows E fuel (fetchBlocksForRows options) changed
           (new_Map (map (\<lambda>x. (row_id x, x)) (stored_rows w outName))) w1 = (Return byId, w2)
    \<and> (fullMode options \<longrightarrow> (\<exists>ids w3. fullIdsInDatabase E fuel db w2 = (Return ids, w3)))
    \<and> writable E (db_file outName)"
proof -
  from assms obtain changed w1 snapshot w1' byId w2 byId' w3 where
    q: "queryDatabaseIncremental E fuel db (if fullMode options then None else sinceISO options) w
       = (Return changed, w1)"
    and rs: "read_snapshot (db_file outName) w1 = (Return snapshot, w1')"
    and sr: "sync_rows E fuel (fetchBlocksForRows options) changed
           (new_Map (map (\<lambda>x. (row_id x, x)) snapshot)) w1' = (Return byId, w2)"
    and rc: "(if fullMode options
              then then_do (fullIdsInDatabase E fuel db)
                     (\<lambda>currentIds. return (reconcile currentIds byId))
              else return byId) w2 = (Return byId', w3)"
    and wr: "fs_writeFileSync E (db_file outName) (DbJson (map snd byId')) w3 = (Return (), w')"
    unfolding syncDatabase_def then_do_eq_Return by blast
  have f1: "files w1 = files w" using q by (rule query_keeps_files)
  have st: "w1' = w1" "snapshot = stored_rows w outName"
    using read_snapshot_result [OF rs] f1 by (simp_all add: stored_rows_def)
  have rd: "snapshot_readable w outName"
    using rs f1
    by (auto simp add: snapshot_readable_def read_snapshot_def
        split: option.splits content.splits)
  have en: "fullMode options \<longrightarrow> (\<exists>ids w3. fullIdsInDatabase E fuel db w2 = (Return ids, w3))"
    using rc by (auto simp add: then_do_eq_Return)
  have wr': "writable E (db_file outName)"
    using wr by (auto simp add: fs_writeFileSync_def split: if_splits)
  from q rd sr [unfolded st] en wr' show ?thesis by blast
qed

text \<open>
  C2: a collection sync whose steps return (the query for the changed rows, the row
  loop, in full mode the enumeration of the current ids, made in the world the row loop
  left), with a snapshot file that can be read and written, returns and has written a
  snapshot with one row per id. In full mode the rows are those of the merged index whose
  id the enumeration lists, in the order of the index: every other id is removed. Their
  ids are those of the stored snapshot and of the queried rows that the enumeration
  lists; a stored row the enumeration lists and the query did not return is kept as it
  was. In incremental mode nothing is removed: the rows are those of the merged index,
  their ids those of the stored snapshot and of the changed rows, and every row that is
  not among the changed ones is kept as it was. When the stored snapshot has one row per
  id, "kept" is literal: the stored row itself is a row of the new snapshot. A sync
  returns in no other way (\<open>syncDatabase_returns_only_so\<close>).
\<close>

theorem syncDatabase_reconciles_in_full_mode_only:
  assumes q: "queryDatabaseIncremental E fuel db
                (if fullMode options then None else sinceISO options) w = (Return changed, w1)"
    and rd: "snapshot_readable w outName"
    and sr: "sync_rows E fuel (fetchBlocksForRows options) changed
               (new_Map (map (\<lambda>x. (row_id x, x)) (stored_rows w outName))) w1 = (Return byId, w2)"
    and en: "fullMode options \<Longrightarrow> fullIdsInDatabase E fuel db w2 = (Return ids, w3)"
    and wr: "writable E (db_file outName)"
  shows "\<exists>w' rows.
      syncDatabase E fuel db outName options w = (Return (), w')
    \<and> files w' (db_file outName) = Some (DbJson rows)
    \<and> distinct (map row_id rows)
    \<and> (fullMode options \<longrightarrow>
           rows = filter (\<lambda>x. row_id x \<in> set ids) (map snd byId)
         \<and> set (map row_id rows) =
             (set (map row_id (stored_rows w outName)) \<union> set (map row_id changed)) \<inter> set ids
         \<and> (\<forall>k \<in> set ids. k \<notin> set (map row_id changed) \<longrightarrow>
               row_of rows k = row_of (stored_rows w outName) k)
         \<and> (distinct (map row_id (stored_rows w outName)) \<longrightarrow>
               (\<forall>x \<in> set (stored_rows w outName).
                   row_id x \<in> set ids \<and> row_id x \<notin> set (map row_id changed) \<longrightarrow>
                   x \<in> set rows)))
    \<and> (\<not> fullMode options \<longrightarrow>
           rows = map snd byId
         \<and> set (map row_id rows) =
             set (map row_id (stored_rows w outName)) \<union> set (map row_id changed)
         \<and> (\<forall>k. k \<notin> set (map row_id changed) \<longrightarrow>
               row_of rows k = row_of (stored_rows w outName) k)
         \<and> (distinct (map row_id (stored_rows w outName)) \<longrightarrow>
               (\<forall>x \<in> set (stored_rows w outName).
                   row_id x \<notin> set (map row_id changed) \<longrightarrow> x \<in> set rows)))"
proof -
  let ?stored = "stored_rows w outName"
  let ?index = "new_Map (map (\<lambda>x. (row_id x, x)) ?stored)"
  let ?byId' = "if fullMode options then filter (\<lambda>kv. fst kv \<in> set ids) byId else byId"
  from syncDatabase_runs [OF q rd sr en wr] obtain w' where
    run: "syncDatabase E fuel db outName options w = (Return (), w')"
    and written: "files w' (db_file outName) = Some (DbJson (map snd ?byId'))"
    by blast
  have i0: "keyed ?index" "distinct (map fst ?index)" "fst ` set ?index = row_id ` set ?stored"
    by (simp_all add: new_Map_rows_keyed new_Map_distinct new_Map_keys image_image)
  from sync_rows_index [OF sr] i0 have
    keys: "fst ` set byId = row_id ` set ?stored \<union> row_id ` set changed"
    and dist: "distinct (map fst byId)" and keyed: "keyed byId"
    and frame: "\<And>k. k \<notin> row_id ` set changed \<Longrightarrow> map_get byId k = row_of ?stored k"
    by (simp_all add: row_of_def)
  have k': "keyed ?byId'" and d': "distinct (map fst ?byId')"
    using keyed dist by (auto simp add: keyed_filter distinct_keys_filter)
  have ids: "map row_id (map snd ?byId') = map fst ?byId'"
    using k' by (rule keyed_ids)
  have ro: "row_of (map snd ?byId') k = map_get ?byId' k" for k
    using k' d' by (rule row_of_index)
  have C: "distinct (map row_id (map snd ?byId'))" using d' by (simp only: ids)
  have D: "map snd ?byId' = filter (\<lambda>x. row_id x \<in> set ids) (map snd byId)
         \<and> set (map row_id (map snd ?byId')) =
                (set (map row_id ?stored) \<union> set (map row_id changed)) \<inter> set ids
         \<and> (\<forall>k \<in> set ids. k \<notin> set (map row_id changed) \<longrightarrow>
                  row_of (map snd ?byId') k = row_of ?stored k)
         \<and> (distinct (map row_id ?stored) \<longrightarrow>
                  (\<forall>x \<in> set ?stored.
                      row_id x \<in> set ids \<and> row_id x \<notin> set (map row_id changed) \<longrightarrow>
                      x \<in> set (map snd ?byId')))"
    if full: "fullMode options"
  proof -
    have b: "?byId' = filter (\<lambda>kv. fst kv \<in> set ids) byId" using full by simp
    have r0: "map snd ?byId' = filter (\<lambda>x. row_id x \<in> set ids) (map snd byId)"
      unfolding b using keyed by (rule keyed_filter_rows)
    have "fst ` set ?byId' = (row_id ` set ?stored \<union> row_id ` set changed) \<inter> set ids"
      unfolding b keys_filter keys ..
    then have s: "set (map row_id (map snd ?byId')) =
        (set (map row_id ?stored) \<union> set (map row_id changed)) \<inter> set ids"
      unfolding ids by simp
    have r: "row_of (map snd ?byId') k = row_of ?stored k"
      if k: "k \<in> set ids" "k \<notin> set (map row_id changed)" for k
    proof -
      have "row_of (map snd ?byId') k = map_get ?byId' k" by (rule ro)
      also have "\<dots> = map_get byId k" unfolding b using k(1) by (simp add: map_get_filter)
      also have "\<dots> = row_of ?stored k" using k(2) by (intro frame) simp
      finally show ?thesis .
    qed
    have "x \<in> set (map snd ?byId')"
      if "distinct (map row_id ?stored)" "x \<in> set ?stored" "row_id x \<in> set ids"
        "row_id x \<notin> set (map row_id changed)" for x
      using kept_rows [of "map snd ?byId'" x ?stored] r that by blast
    with r0 s r show ?thesis by blast
  qed
  have I: "map snd ?byId' = map snd byId
      \<and> set (map row_id (map snd ?byId')) = set (map row_id ?stored) \<union> set (map row_id changed)
      \<and> (\<forall>k. k \<notin> set (map row_id changed) \<longrightarrow> row_of (map snd ?byId') k = row_of ?stored k)
      \<and> (distinct (map row_id ?stored) \<longrightarrow>
               (\<forall>x \<in> set ?stored. row_id x \<notin> set (map row_id changed) \<longrightarrow>
                  x \<in> set (map snd ?byId')))"
    if inc: "\<not> fullMode options"
  proof -
    from inc have b: "?byId' = byId" by simp
    have s: "set (map row_id (map snd ?byId')) = set (map row_id ?stored) \<union> set (map row_id changed)"
      unfolding ids using keys b by simp
    have r: "row_of (map snd ?byId') k = row_of ?stored k"
      if "k \<notin> set (map row_id changed)" for k
      unfolding ro using frame that b by simp
    have "x \<in> set (map snd ?byId')"
      if "distinct (map row_id ?stored)" "x \<in> set ?stored"
        "row_id x \<notin> set (map row_id changed)" for x
      using kept_rows [of "map snd ?byId'" x ?stored] r that by blast
    with b s r show ?thesis by simp
  qed
  from run written C D I show ?thesis
    by (intro exI [of _ w'] exI [of _ "map snd ?byId'"]) blast
qed

lemmas moving_defs = queryDatabaseIncremental_def fullIdsInDatabase_def
  then_do_def return_def withRetry_def withRetry_from.simps notion_databases_query_def
  asked_def settle_def since_filter_def db_file_def path_join_def OUT_DIR_def
  ROOT_def new_Map_def sync_row_def prepare_row_def cache_row_cover_def cover_url_def
  truthy_def js_or_def fetch_row_blocks_def upsert_row_def
  env_moving_def env_db_def env_cdn_def env_offline_def world_db_def empty_state_def
  row_a_def row_b_def row_c_def row_a_old_def stored_rows_def snapshot_readable_def
  full_options_def incremental_options_def Let_def

theorem syncDatabase_reconciles_in_full_mode_only_witness:
  "stored_rows world_db ''members'' = [row_a_old, row_b, row_c]
   \<and> full_run = (Return (), snd full_run)
   \<and> files (snd full_run) (db_file ''members'') = Some (DbJson [row_a, row_c])
   \<and> incremental_run = (Return (), snd incremental_run)
   \<and> files (snd incremental_run) (db_file ''members'') = Some (DbJson [row_a, row_b, row_c])
   \<and> row_of [row_a, row_b, row_c] ''B'' = Some row_b
   \<and> fst (fullIdsInDatabase env_moving 1 ''db1'' world_db) = Return [''A'', ''C'']
   \<and> moving_run = (Return (), snd moving_run)
   \<and> files (snd moving_run) (db_file ''members'') = Some (DbJson [row_a])"
proof -
  have f: "full_run = (Return (), snd full_run)"
    using full_run_value by (simp add: prod_eq_iff)
  have i: "incremental_run = (Return (), snd incremental_run)"
    using incremental_run_value by (simp add: prod_eq_iff)
  have p: "db_file ''members'' = ''/site/notion-data/db-members.json''"
    by (simp add: db_file_def path_join_def OUT_DIR_def ROOT_def)
  have s: "stored_rows world_db ''members'' = [row_a_old, row_b, row_c]"
    by (simp add: stored_rows_def p world_db_def)
  have b: "row_of [row_a, row_b, row_c] ''B'' = Some row_b"
    by (simp add: row_of_def new_Map_def row_a_def row_b_def row_c_def)
  let ?w1 = "world_db\<lparr>tick := 1, trace := [ApiCall (DatabasesQuery ''db1'' None None)]\<rparr>"
  let ?index = "new_Map (map (\<lambda>x. (row_id x, x)) (stored_rows world_db ''members''))"
  let ?loop = "sync_rows env_moving 1 (fetchBlocksForRows full_options) [row_a, row_c] ?index ?w1"
  have q: "queryDatabaseIncremental env_moving 1 ''db1''
             (if fullMode full_options then None else sinceISO full_options) world_db
           = (Return [row_a, row_c], ?w1)"
    by (simp add: moving_defs)
  have rd: "snapshot_readable world_db ''members''"
    by (simp add: moving_defs)
  have sr: "?loop = (Return [(''A'', row_a), (''B'', row_b), (''C'', row_c)], snd ?loop)"
    by (simp add: prod_eq_iff moving_defs)
  have en: "fullIdsInDatabase env_moving 1 ''db1'' (snd ?loop)
      = (Return [''A''], snd (fullIdsInDatabase env_moving 1 ''db1'' (snd ?loop)))"
    by (simp add: prod_eq_iff moving_defs)
  have wr: "writable env_moving (db_file ''members'')"
    by (simp add: moving_defs)
  from syncDatabase_reconciles_in_full_mode_only [OF q rd sr en wr] obtain w' rows where
    "syncDatabase env_moving 1 ''db1'' ''members'' full_options world_db = (Return (), w')"
    "files w' (db_file ''members'') = Some (DbJson rows)"
    "rows = filter (\<lambda>x. row_id x \<in> set [''A''])
              (map snd [(''A'', row_a), (''B'', row_b), (''C'', row_c)])"
    by (auto simp add: full_options_def)
  then have m: "moving_run = (Return (), snd moving_run)"
    "files (snd moving_run) (db_file ''members'') = Some (DbJson [row_a])"
    by (simp_all add: moving_run_def row_a_def row_b_def row_c_def)
  have e: "fst (fullIdsInDatabase env_moving 1 ''db1'' world_db) = Return [''A'', ''C'']"
    by (simp add: moving_defs)
  show ?thesis
    using f i s b m e full_run_value incremental_run_value by (simp add: p)
qed

text \<open>
  C10: a sync whose steps return, as in C2. A changed row none of whose fetched versions
  carries a cover URL (or a \<^verbatim>\<open>cover_local\<close> of its own) is stored without \<^verbatim>\<open>cover_local\<close>,
  whatever the asset cache holds for \<^verbatim>\<open>page:<rowId>:cover\<close> and whatever the stored row
  had. The stored row is what the loop body made of one of the fetched rows, which does
  not read the index: field by field the fetched row, but for the local paths grafted
  in and the blocks fetched (\<open>upserted_from\<close>). It is in the snapshot in incremental mode,
  and in full mode when the enumeration lists it. Not so the page sync: for a changed
  page without a cover URL the payload's \<^verbatim>\<open>cover_local\<close> is the path the asset cache
  holds for \<^verbatim>\<open>page:<pageId>:cover\<close>, or else the one of the page's state.
\<close>

theorem syncDatabase_cover_local_not_restored:
  assumes q: "queryDatabaseIncremental E fuel db
                (if fullMode options then None else sinceISO options) w = (Return changed, w1)"
    and rd: "snapshot_readable w outName"
    and sr: "sync_rows E fuel (fetchBlocksForRows options) changed
               (new_Map (map (\<lambda>x. (row_id x, x)) (stored_rows w outName))) w1 = (Return byId, w2)"
    and en: "fullMode options \<Longrightarrow> fullIdsInDatabase E fuel db w2 = (Return ids, w3)"
    and wr: "writable E (db_file outName)"
    and p: "p \<in> set changed"
    and nocover: "\<forall>q \<in> set changed. row_id q = row_id p \<longrightarrow>
             \<not> truthy (cover_url (row_cover q)) \<and> row_cover_local q = None"
  shows "(\<exists>w' rows.
        syncDatabase E fuel db outName options w = (Return (), w')
      \<and> files w' (db_file outName) = Some (DbJson rows)
      \<and> (\<forall>v. row_of rows (row_id p) = Some v \<longrightarrow>
            row_cover_local v = None
          \<and> (\<exists>q \<in> set changed. \<exists>wa wb. row_id q = row_id p
                \<and> prepare_row E fuel (fetchBlocksForRows options) q wa = (Return v, wb)
                \<and> upserted_from (fetchBlocksForRows options) q v))
      \<and> (\<not> fullMode options \<longrightarrow> row_of rows (row_id p) \<noteq> None)
      \<and> (fullMode options \<longrightarrow> (row_of rows (row_id p) \<noteq> None \<longleftrightarrow> row_id p \<in> set ids)))
    \<and> (withRetry (notion_pages_retrieve E pageId) 5 wp = (Return meta, wm)
        \<and> page_changed (pages (mem wm) pageId) meta
        \<and> \<not> truthy (cover_url (page_cover meta))
        \<and> listBlocks E fuel pageId wm = (Return bs, wl)
        \<and> writable E (page_file pageId aliasOut)
       \<longrightarrow> (\<exists>wp'. fetchPageIfChanged E fuel pageId aliasOut wp =
              (Return (Some \<lparr>page = meta, blocks = bs,
                 cover_local =
                   js_or (js_or (cached_local wl (''page:'' @ page_id meta @ '':cover''))
                            (case pages (mem wm) pageId of
                               None \<Rightarrow> None
                             | Some pr \<Rightarrow> ps_cover_local pr)) None\<rparr>), wp')))"
proof -
  let ?fb = "fetchBlocksForRows options"
  let ?byId' = "if fullMode options then filter (\<lambda>kv. fst kv \<in> set ids) byId else byId"
  from syncDatabase_runs [OF q rd sr en wr] obtain w' where
    run: "syncDatabase E fuel db outName options w = (Return (), w')"
    and written: "files w' (db_file outName) = Some (DbJson (map snd ?byId'))"
    by blast
  from sync_rows_index [OF sr] have
    dist: "distinct (map fst byId)" and keyed: "keyed byId"
    by (simp_all add: new_Map_rows_keyed new_Map_distinct)
  have "keyed ?byId'" and "distinct (map fst ?byId')"
    using keyed dist by (auto simp add: keyed_filter distinct_keys_filter)
  then have ro: "row_of (map snd ?byId') k = map_get ?byId' k" for k
    by (rule row_of_index)
  from sync_rows_changed [OF sr, of "row_id p"] p obtain q v wa wb where
    qv: "q \<in> set changed" "row_id q = row_id p" "map_get byId (row_id p) = Some v"
      "upserted_from ?fb q v" "prepare_row E fuel ?fb q wa = (Return v, wb)" by auto
  have v: "row_cover_local v = None"
    using qv nocover by (auto simp add: upserted_from_def)
  have sub: "map_get ?byId' (row_id p) = Some u \<Longrightarrow> u = v" for u
    using qv(3) by (auto simp add: map_get_filter split: if_splits)
  have A: "row_cover_local u = None
          \<and> (\<exists>q \<in> set changed. \<exists>wa wb. row_id q = row_id p
                \<and> prepare_row E fuel ?fb q wa = (Return u, wb)
                \<and> upserted_from ?fb q u)"
    if "row_of (map snd ?byId') (row_id p) = Some u" for u
  proof -
    from that have "u = v" using sub by (simp add: ro)
    then show ?thesis using v qv by blast
  qed
  have B: "row_of (map snd ?byId') (row_id p) \<noteq> None" if "\<not> fullMode options"
    unfolding ro using that qv(3) by simp
  have C: "row_of (map snd ?byId') (row_id p) \<noteq> None \<longleftrightarrow> row_id p \<in> set ids"
    if "fullMode options"
    unfolding ro using that qv(3) by (simp add: map_get_filter)
  have db: "\<exists>w' rows.
        syncDatabase E fuel db outName options w = (Return (), w')
      \<and> files w' (db_file outName) = Some (DbJson rows)
      \<and> (\<forall>v. row_of rows (row_id p) = Some v \<longrightarrow>
            row_cover_local v = None
          \<and> (\<exists>q \<in> set changed. \<exists>wa wb. row_id q = row_id p
                \<and> prepare_row E fuel ?fb q wa = (Return v, wb)
                \<and> upserted_from ?fb q v))
      \<and> (\<not> fullMode options \<longrightarrow> row_of rows (row_id p) \<noteq> None)
      \<and> (fullMode options \<longrightarrow> (row_of rows (row_id p) \<noteq> None \<longleftrightarrow> row_id p \<in> set ids))"
    using run written A B C
    by (intro exI [of _ w'] exI [of _ "map snd ?byId'"]) blast
  have pg: "\<exists>wp'. fetchPageIfChanged E fuel pageId aliasOut wp =
              (Return (Some \<lparr>page = meta, blocks = bs,
                 cover_local =
                   js_or (js_or (cached_local wl (''page:'' @ page_id meta @ '':cover''))
                            (case pages (mem wm) pageId of
                               None \<Rightarrow> None
                             | Some pr \<Rightarrow> ps_cover_local pr)) None\<rparr>), wp')"
    if "withRetry (notion_pages_retrieve E pageId) 5 wp = (Return meta, wm)"
      and "page_changed (pages (mem wm) pageId) meta"
      and "\<not> truthy (cover_url (page_cover meta))"
      and "listBlocks E fuel pageId wm = (Return bs, wl)"
      and "writable E (page_file pageId aliasOut)"
    using that
    by (simp add: fetchPageIfChanged_def fetch_changed_page_def then_do_def Let_def
        fs_writeFileSync_def)
  show ?thesis
  proof (intro conjI impI)
    show "\<exists>w' rows.
        syncDatabase E fuel db outName options w = (Return (), w')
      \<and> files w' (db_file outName) = Some (DbJson rows)
      \<and> (\<forall>v. row_of rows (row_id p) = Some v \<longrightarrow>
            row_cover_local v = None
          \<and> (\<exists>q \<in> set changed. \<exists>wa wb. row_id q = row_id p
                \<and> prepare_row E fuel ?fb q wa = (Return v, wb)
                \<and> upserted_from ?fb q v))
      \<and> (\<not> fullMode options \<longrightarrow> row_of rows (row_id p) \<noteq> None)
      \<and> (fullMode options \<longrightarrow> (row_of rows (row_id p) \<noteq> None \<longleftrightarrow> row_id p \<in> set ids))"
      by (rule db)
  next
    assume "withRetry (notion_pages_retrieve E pageId) 5 wp = (Return meta, wm)
        \<and> page_changed (pages (mem wm) pageId) meta
        \<and> \<not> truthy (cover_url (page_cover meta))
        \<and> listBlocks E fuel pageId wm = (Return bs, wl)
        \<and> writable E (page_file pageId aliasOut)"
    then show "\<exists>wp'. fetchPageIfChanged E fuel pageId aliasOut wp =
              (Return (Some \<lparr>page = meta, blocks = bs,
                 cover_local =
                   js_or (js_or (cached_local wl (''page:'' @ page_id meta @ '':cover''))
                            (case pages (mem wm) pageId of
                               None \<Rightarrow> None
                             | Some pr \<Rightarrow> ps_cover_local pr)) None\<rparr>), wp')"
      using pg by blast
  qed
qed

lemmas site_defs = syncDatabase_def queryDatabaseIncremental_def fullIdsInDatabase_def
  then_do_def return_def withRetry_def withRetry_from.simps notion_databases_query_def
  notion_pages_retrieve_def notion_blocks_children_list_def
  asked_def settle_def since_filter_def read_snapshot_def db_file_def path_join_def OUT_DIR_def
  ROOT_def new_Map_def sync_row_def prepare_row_def cache_row_cover_def cover_url_def
  truthy_def js_or_def fetch_row_blocks_def upsert_row_def fs_writeFileSync_def
  env_site_def env_db_def env_cdn_def env_offline_def world_site_def world_db_def
  empty_state_def steady_meta_def cover_record_def
  row_a_def row_b_def row_c_def row_a_old_def stored_rows_def snapshot_readable_def
  incremental_options_def page_changed_def page_file_def cached_local_def
  fetchPageIfChanged_def fetch_changed_page_def numeral_2_eq_2 Let_def

lemma site_rows_value:
  "fst site_rows = Return ()
   \<and> files (snd site_rows) ''/site/notion-data/db-members.json''
       = Some (DbJson [row_a, row_b, row_c])"
  by (simp add: site_rows_def site_defs)

lemma site_page_value:
  "fst site_page = Return (Some \<lparr>page = steady_meta, blocks = [],
       cover_local = Some ''./images/cover-0123456789ab.png''\<rparr>)"
  by (simp add: site_page_def site_defs)

theorem syncDatabase_cover_local_not_restored_witness:
  "cache_hit world_site ''page:A:cover''
   \<and> cached_local world_site ''page:p1:cover'' = Some ''./images/cover-0123456789ab.png''
   \<and> row_of (stored_rows world_site ''members'') ''A'' = Some row_a_old
   \<and> row_cover_local row_a_old = Some ''./images/cover-0123456789ab.png''
   \<and> site_rows = (Return (), snd site_rows)
   \<and> files (snd site_rows) (db_file ''members'') = Some (DbJson [row_a, row_b, row_c])
   \<and> row_of [row_a, row_b, row_c] ''A'' = Some row_a
   \<and> row_cover_local row_a = None
   \<and> fst site_page = Return (Some \<lparr>page = steady_meta, blocks = [],
         cover_local = Some ''./images/cover-0123456789ab.png''\<rparr>)"
proof -
  let ?w1 = "world_site\<lparr>tick := 1, trace := [ApiCall (DatabasesQuery ''db1'' None
               (Some (LastEditedOnOrAfter ''2024-05-01T00:00:00.000Z'')))]\<rparr>"
  let ?index = "new_Map (map (\<lambda>x. (row_id x, x)) (stored_rows world_site ''members''))"
  let ?loop = "sync_rows env_site 2 (fetchBlocksForRows incremental_options) [row_a] ?index ?w1"
  let ?wm = "world_site\<lparr>tick := 1, trace := [ApiCall (PagesRetrieve ''p1'')]\<rparr>"
  have p: "db_file ''members'' = ''/site/notion-data/db-members.json''"
    by (simp add: db_file_def path_join_def OUT_DIR_def ROOT_def)
  have q: "queryDatabaseIncremental env_site 2 ''db1''
             (if fullMode incremental_options then None else sinceISO incremental_options)
             world_site = (Return [row_a], ?w1)"
    by (simp add: site_defs)
  have rd: "snapshot_readable world_site ''members''"
    by (simp add: site_defs)
  have sr: "?loop = (fst ?loop, snd ?loop)" and ok: "\<exists>byId. fst ?loop = Return byId"
    by (simp_all add: site_defs)
  from ok obtain byId where byId: "fst ?loop = Return byId" by blast
  have wr: "writable env_site (db_file ''members'')"
    by (simp add: site_defs)
  have inc: "\<not> fullMode incremental_options"
    by (simp add: incremental_options_def)
  have nocover: "\<forall>q \<in> set [row_a]. row_id q = row_id row_a \<longrightarrow>
             \<not> truthy (cover_url (row_cover q)) \<and> row_cover_local q = None"
    by (simp add: row_a_def cover_url_def truthy_def)
  have meta: "withRetry (notion_pages_retrieve env_site ''p1'') 5 world_site
                = (Return steady_meta, ?wm)"
    by (simp add: site_defs)
  have changed: "page_changed (pages (mem ?wm) ''p1'') steady_meta"
    by (simp add: site_defs)
  have bare: "\<not> truthy (cover_url (page_cover steady_meta))"
    by (simp add: site_defs)
  have tree: "listBlocks env_site 2 ''p1'' ?wm
                = (Return [], snd (listBlocks env_site 2 ''p1'' ?wm))"
    by (simp add: prod_eq_iff site_defs)
  have pw: "writable env_site (page_file ''p1'' (Some ''home''))"
    by (simp add: site_defs)
  note T = syncDatabase_cover_local_not_restored [OF q rd sr [unfolded byId] _ wr _ nocover,
      where pageId = "''p1''" and wp = world_site and meta = steady_meta and wm = ?wm
        and bs = "[]" and wl = "snd (listBlocks env_site 2 ''p1'' ?wm)"
        and aliasOut = "Some ''home''"]
  from T inc obtain w' rows where
    run: "syncDatabase env_site 2 ''db1'' ''members'' incremental_options world_site
            = (Return (), w')"
    and rows: "files w' (db_file ''members'') = Some (DbJson rows)"
    and bare_row: "\<forall>v. row_of rows (row_id row_a) = Some v \<longrightarrow> row_cover_local v = None"
    by auto
  have ret: "site_rows = (Return (), snd site_rows)"
    using run by (simp add: site_rows_def)
  have "rows = [row_a, row_b, row_c]"
    using run rows site_rows_value by (simp add: site_rows_def p)
  moreover have a: "row_of [row_a, row_b, row_c] ''A'' = Some row_a"
    by (simp add: row_of_def new_Map_def row_a_def row_b_def row_c_def)
  ultimately have none: "row_cover_local row_a = None"
    using bare_row by (simp add: row_a_def)
  from T inc meta changed bare tree pw obtain wp' where
    "fetchPageIfChanged env_site 2 ''p1'' (Some ''home'') world_site =
       (Return (Some \<lparr>page = steady_meta, blocks = [],
          cover_local =
            js_or (js_or (cached_local (snd (listBlocks env_site 2 ''p1'' ?wm))
                            (''page:'' @ page_id steady_meta @ '':cover''))
                     (case pages (mem ?wm) ''p1'' of
                        None \<Rightarrow> None
                      | Some pr \<Rightarrow> ps_cover_local pr)) None\<rparr>), wp')"
    by auto
  then have page: "fst site_page = Return (Some \<lparr>page = steady_meta, blocks = [],
         cover_local = Some ''./images/cover-0123456789ab.png''\<rparr>)"
    by (simp add: site_page_def site_defs)
  have "cache_hit world_site ''page:A:cover''"
    by (simp add: cache_hit_def cached_local_def world_site_def world_db_def cover_record_def
        fs_existsSync_def path_join_def ROOT_def strip_dot_slash_def)
  moreover have "cached_local world_site ''page:p1:cover'' = Some ''./images/cover-0123456789ab.png''"
    by (simp add: cached_local_def world_site_def world_db_def cover_record_def)
  moreover have "row_of (stored_rows world_site ''members'') ''A'' = Some row_a_old"
    by (simp add: stored_rows_def p world_site_def world_db_def row_of_def new_Map_def
        row_a_old_def row_b_def row_c_def)
  ultimately show ?thesis
    using a none ret page site_rows_value by (simp add: row_a_old_def p)
qed

section \<open>Effects of a database sync and of a run\<close>

lemma emits_cache_row_cover: "benign P \<Longrightarrow> emits P (cache_row_cover E p)"
  by (auto simp add: cache_row_cover_def Let_def
      intro!: emits_then_do emits_return benign_download)

lemma emits_cache_files: "benign P \<Longrightarrow> emits P (cache_files E keyPrefix i fs)"
  by (induction fs arbitrary: i)
     (auto intro!: emits_then_do emits_return benign_download)

lemma emits_cache_properties: "benign P \<Longrightarrow> emits P (cache_properties E rowId ps)"
  by (induction E rowId ps rule: cache_properties.induct)
     (auto split: property.splits intro!: emits_then_do emits_return emits_cache_files)

lemma emits_fetch_row_blocks:
  assumes "benign P"
  shows "emits P (fetch_row_blocks E fuel fb p)"
proof (rule emits_pointwise)
  fix w
  show "\<exists>m'. emits P m' \<and> fetch_row_blocks E fuel fb p w = m' w"
  proof (cases fb)
    case False
    then show ?thesis
      by (intro exI [of _ "return p"]) (simp add: emits_return fetch_row_blocks_def return_def)
  next
    case True
    let ?m = "\<lambda>w'. (fst (fetch_row_blocks E fuel fb p w), snd (listBlocks E fuel (row_id p) w'))"
    have "emits P ?m"
      using emits_listBlocks_both(1) [OF assms, of E fuel "row_id p"]
      by (simp add: emits_def)
    moreover have "fetch_row_blocks E fuel fb p w = ?m w"
      using True
      by (simp add: fetch_row_blocks_def prod_eq_iff split: prod.splits outcome.splits)
    ultimately show ?thesis by blast
  qed
qed

lemma emits_upsert_row: "emits P (upsert_row p byId)"
  by (rule emits_silent) (simp add: upsert_row_def)

lemma emits_sync_row: "benign P \<Longrightarrow> emits P (sync_row E fuel fb p byId)"
  unfolding sync_row_def prepare_row_def
  by (intro emits_then_do emits_cache_row_cover emits_cache_properties
      emits_fetch_row_blocks emits_upsert_row)

lemma emits_sync_rows: "benign P \<Longrightarrow> emits P (sync_rows E fuel fb ps byId)"
  by (induction ps arbitrary: byId)
     (auto intro!: emits_then_do emits_return emits_sync_row)

lemma emits_read_snapshot: "emits P (read_snapshot f)"
  by (rule emits_silent)
     (simp add: read_snapshot_def split: option.splits content.splits)

lemma emits_query:
  assumes "\<And>ms. P (Sleep ms)" and "\<And>c. P (ApiCall (DatabasesQuery db c filt))"
  shows "emits P (paginate fuel (notion_databases_query E db filt) cursor all)"
  using assms by (intro emits_paginate emits_databases_query)

lemma emits_syncDatabase:
  assumes b: "benign P"
    and q: "\<And>c. P (ApiCall (DatabasesQuery db c
                (since_filter (if fullMode options then None else sinceISO options))))"
    and f: "fullMode options \<Longrightarrow> (\<And>c. P (ApiCall (DatabasesQuery db c None)))"
  shows "emits P (syncDatabase E fuel db outName options)"
proof -
  have sl: "\<And>ms. P (Sleep ms)" using b by (simp add: benign_def)
  have wr: "emits P (fs_writeFileSync E (db_file outName) c)" for c
    using b by (intro emits_writeFileSync) (simp add: benign_def db_file_def)
  have full: "emits P (fullIdsInDatabase E fuel db)" if "fullMode options"
    unfolding fullIdsInDatabase_def
    using f [OF that] sl by (intro emits_then_do emits_query emits_return)
  have rec: "emits P (if fullMode options
                       then then_do (fullIdsInDatabase E fuel db)
                              (\<lambda>currentIds. return (reconcile currentIds byId))
                       else return byId)" for byId
    using full by (cases "fullMode options") (auto intro!: emits_then_do emits_return)
  show ?thesis
    unfolding syncDatabase_def queryDatabaseIncremental_def
    using b q sl
    by (intro emits_then_do emits_query emits_read_snapshot emits_sync_rows rec wr) auto
qed

lemma emits_sync_page_if_set: "benign P \<Longrightarrow> emits P (sync_page_if_set E fuel pid aliasOut)"
  by (auto simp add: sync_page_if_set_def split: option.splits
      intro!: emits_then_do emits_return emits_fetchPageIfChanged)

lemma emits_sync_db_if_set:
  assumes "benign P"
    and "\<And>db c. P (ApiCall (DatabasesQuery db c
                (since_filter (if fullMode options then None else sinceISO options))))"
    and "fullMode options \<Longrightarrow> (\<And>db c. P (ApiCall (DatabasesQuery db c None)))"
  shows "emits P (sync_db_if_set E fuel dbid outName options)"
  using assms
  by (auto simp add: sync_db_if_set_def split: option.splits
      intro!: emits_return emits_syncDatabase)

lemma emits_run_syncs:
  assumes "benign P"
    and "\<And>db c. P (ApiCall (DatabasesQuery db c
                (since_filter (if fullMode options then None else sinceISO options))))"
    and "fullMode options \<Longrightarrow> (\<And>db c. P (ApiCall (DatabasesQuery db c None)))"
  shows "emits P (run_syncs E fuel cfg options)"
  unfolding run_syncs_def
  using assms
  by (intro emits_then_do emits_sync_page_if_set emits_sync_db_if_set) auto


lemma emits_stamp_and_save: "P (FileWrite STATE_F) \<Longrightarrow> emits P (stamp_and_save E)"
proof (rule emitsI)
  fix w
  assume P: "P (FileWrite STATE_F)"
  show "\<exists>evs. trace (snd (stamp_and_save E w)) = trace w @ evs \<and> list_all P evs
     \<and> (\<forall>q. FileWrite q \<notin> set evs \<longrightarrow> files (snd (stamp_and_save E w)) q = files w q)"
  proof (cases "writable E STATE_F")
    case True
    then show ?thesis using P
      by (intro exI [of _ "[FileWrite STATE_F]"])
         (auto simp add: stamp_and_save_def saveState_def fs_writeFileSync_def)
  next
    case False
    then show ?thesis
      by (intro exI [of _ "[]"]) (simp add: stamp_and_save_def saveState_def fs_writeFileSync_def)
  qed
qed

lemma benign_not_state_file: "benign (\<lambda>e. e \<noteq> FileWrite STATE_F)"
  by (simp add: benign_def STATE_F_def CACHE_DIR_def IMG_DIR_def OUT_DIR_def ROOT_def
      path_join_def)

lemma benign_query_bound: "benign (query_bound_is s)"
  by (simp add: benign_def query_bound_is_def)

lemma loadState_same_file: "files a STATE_F = files b STATE_F \<Longrightarrow> loadState a = loadState b"
  by (simp add: loadState_def fs_existsSync_def)

text \<open>The example runs of \<open>main\<close>, evaluated.\<close>

lemma normalize_home:
  "normalizeId (Some ''https://www.notion.so/Home-0123456789ABCDEF0123456789ABCDEF'')
     = Some ''0123456789abcdef0123456789abcdef''"
  by code_simp

lemma normalize_intro:
  "normalizeId (Some ''fedcba98-7654-3210-fedc-ba9876543210'')
     = Some ''fedcba9876543210fedcba9876543210''"
  by (simp add: normalizeId_def trim_def is_space_def is_hex_def toLowerCase_def
      to_lower_char_def)

lemma normalize_members: "normalizeId (Some members_id) = Some members_id"
  by (simp add: members_id_def normalizeId_def trim_def is_space_def is_hex_def
      toLowerCase_def to_lower_char_def)

lemma members_nonempty: "members_id \<noteq> []"
  by (simp add: members_id_def)

lemma normalize_none: "normalizeId None = None"
  by (simp add: normalizeId_def)

lemma crash_run_value:
  "fst crash_run = Throw (ApiError ''unavailable'')
   \<and> files (snd crash_run) ''/site/notion-data/page-home.json''
       = Some (PageJson \<lparr>page = steady_meta, blocks = [], cover_local = None\<rparr>)
   \<and> trace (snd crash_run) =
       [ApiCall (PagesRetrieve home_id), ApiCall (BlocksChildrenList home_id None),
        FileWrite ''/site/notion-data/page-home.json'',
        ApiCall (PagesRetrieve ''fedcba9876543210fedcba9876543210''), Sleep 250,
        ApiCall (PagesRetrieve ''fedcba9876543210fedcba9876543210''), Sleep 500,
        ApiCall (PagesRetrieve ''fedcba9876543210fedcba9876543210''), Sleep 1000,
        ApiCall (PagesRetrieve ''fedcba9876543210fedcba9876543210''), Sleep 2000,
        ApiCall (PagesRetrieve ''fedcba9876543210fedcba9876543210'')]"
  by (simp add: crash_run_def main_def run_syncs_def crash_config_def normalize_home
      normalize_intro normalize_none sync_page_if_set_def sync_db_if_set_def
      run_full_mode_def loadState_def fs_existsSync_def STATE_F_def CACHE_DIR_def
      world_before_crash_def crash_state_def home_id_def
      fetchPageIfChanged_def fetch_changed_page_def then_do_def
      withRetry_def withRetry_from.simps notion_pages_retrieve_def
      notion_blocks_children_list_def asked_def settle_def env_crash_def env_cdn_def
      env_offline_def empty_state_def page_changed_def steady_meta_def
      numeral_2_eq_2 return_def cover_url_def truthy_def js_or_def cached_local_def
      fs_writeFileSync_def page_file_def path_join_def OUT_DIR_def ROOT_def Let_def
      sleep_def retry_wait_def)

lemma incremental_main_value:
  "fst incremental_main = Return ()
   \<and> trace (snd incremental_main) =
       [ApiCall (DatabasesQuery members_id None
          (Some (LastEditedOnOrAfter ''2024-05-01T00:00:00.000Z''))),
        FileWrite ''/site/notion-data/db-members.json'',
        FileWrite ''/site/.cache/state.json'']"
  by (simp add: incremental_main_def main_def run_syncs_def members_config_def
      normalize_members normalize_none sync_page_if_set_def sync_db_if_set_def
      run_full_mode_def loadState_def fs_existsSync_def STATE_F_def CACHE_DIR_def
      world_synced_def isoMinusMinutes_def env_clock_def stamp_and_save_def saveState_def
      syncDatabase_def queryDatabaseIncremental_def
      then_do_def return_def withRetry_def withRetry_from.simps notion_databases_query_def
      asked_def settle_def since_filter_def read_snapshot_def db_file_def path_join_def
      OUT_DIR_def ROOT_def new_Map_def sync_row_def prepare_row_def cache_row_cover_def cover_url_def
      truthy_def js_or_def fetch_row_blocks_def upsert_row_def fs_writeFileSync_def
      env_db_def env_cdn_def env_offline_def empty_state_def
      row_a_def row_b_def row_c_def row_a_old_def members_nonempty Let_def)

section \<open>Properties of the run\<close>

text \<open>
  C3: the state file is written by the last step of a run and by nothing before it. A
  run that returns has written it exactly once, as its last effect, after all page and
  database syncs. A run that ends in an error (or does not end) has not written it: the
  file, and so the state the next run loads (watermark and per-resource stamps), is as
  it was when the run began.
\<close>

theorem main_saves_state_once_at_the_end:
  assumes run: "main E fuel cfg penv w0 = (r, w')"
  shows "(r = Return () \<longrightarrow>
            (\<exists>evs. trace w' = trace w0 @ evs @ [FileWrite STATE_F]
                \<and> FileWrite STATE_F \<notin> set evs)
            \<and> files w' STATE_F = Some (StateJson (mem w')))
    \<and> (r \<noteq> Return () \<longrightarrow>
            (\<exists>evs. trace w' = trace w0 @ evs \<and> FileWrite STATE_F \<notin> set evs)
            \<and> files w' STATE_F = files w0 STATE_F
            \<and> loadState w' = loadState w0)"
proof -
  let ?P = "\<lambda>e. e \<noteq> FileWrite STATE_F"
  let ?w = "w0\<lparr>mem := loadState w0\<rparr>"
  let ?full = "run_full_mode penv (mem ?w)"
  show ?thesis
  proof (cases "if ?full then Inr None else isoMinusMinutes E (lastSyncISO (mem ?w)) 2")
    case (Inl e)
    then have "main E fuel cfg penv w0 = (Throw e, ?w)"
      by (simp add: main_def Let_def)
    with run have "r = Throw e" and "w' = ?w" by simp_all
    then show ?thesis
      by (simp add: loadState_same_file [of ?w w0])
  next
    case (Inr since)
    let ?opts = "\<lparr>sinceISO = since, fullMode = ?full,
                   fetchBlocksForRows = (FETCH_BLOCKS_FOR_DB penv = Some ''1'')\<rparr>"
    have m: "main E fuel cfg penv w0 =
        then_do (run_syncs E fuel cfg ?opts) (\<lambda>u. stamp_and_save E) ?w"
      using Inr by (simp add: main_def Let_def)
    obtain r1 w1 where s: "run_syncs E fuel cfg ?opts ?w = (r1, w1)"
      by (cases "run_syncs E fuel cfg ?opts ?w")
    have "emits ?P (run_syncs E fuel cfg ?opts)"
      by (intro emits_run_syncs benign_not_state_file) simp_all
    from emitsD [OF this s] obtain evs where
      e: "trace w1 = trace w0 @ evs" "list_all ?P evs"
        "\<And>p. FileWrite p \<notin> set evs \<Longrightarrow> files w1 p = files w0 p"
      by auto
    have quiet: "FileWrite STATE_F \<notin> set evs"
      using e(2) by (auto simp add: list_all_iff)
    then have keep: "files w1 STATE_F = files w0 STATE_F" by (rule e(3))
    show ?thesis
    proof (cases "\<exists>u. r1 = Return u")
      case False
      then have "then_do (run_syncs E fuel cfg ?opts) (\<lambda>u. stamp_and_save E) ?w = (r1, w1)"
        using s by (cases r1) (simp_all add: then_do_def)
      with run m have "r = r1" and "w' = w1" by simp_all
      moreover have "r1 \<noteq> Return ()" using False by simp
      ultimately show ?thesis
        using e(1) quiet keep by (auto simp add: loadState_same_file [of w1 w0])
    next
      case True
      then have "then_do (run_syncs E fuel cfg ?opts) (\<lambda>u. stamp_and_save E) ?w
          = stamp_and_save E w1"
        using s by (auto simp add: then_do_def)
      with run m have fin: "stamp_and_save E w1 = (r, w')" by simp
      show ?thesis
      proof (cases "writable E STATE_F")
        case True
        with fin have "r = Return ()" and "trace w' = trace w1 @ [FileWrite STATE_F]"
          and "files w' STATE_F = Some (StateJson (mem w'))"
          by (auto simp add: stamp_and_save_def saveState_def fs_writeFileSync_def)
        then show ?thesis using e(1) quiet by auto
      next
        case False
        with fin have "r = Throw IOError" and "trace w' = trace w1"
          and "files w' = files w1"
          by (auto simp add: stamp_and_save_def saveState_def fs_writeFileSync_def)
        then show ?thesis
          using e(1) quiet keep by (auto simp add: loadState_same_file [of w' w0])
      qed
    qed
  qed
qed

theorem main_saves_state_once_at_the_end_witness:
  "fst crash_run = Throw (ApiError ''unavailable'')
   \<and> files (snd crash_run) ''/site/notion-data/page-home.json''
       = Some (PageJson \<lparr>page = steady_meta, blocks = [], cover_local = None\<rparr>)
   \<and> files (snd crash_run) STATE_F = Some (StateJson crash_state)
   \<and> loadState (snd crash_run) = crash_state
   \<and> map_option ps_last_edited_time (pages (loadState (snd crash_run)) home_id)
       = Some ''2024-04-01T00:00:00.000Z''"
proof -
  have before: "files world_before_crash STATE_F = Some (StateJson crash_state)"
    by (simp add: world_before_crash_def STATE_F_def CACHE_DIR_def ROOT_def path_join_def)
  then have l0: "loadState world_before_crash = crash_state"
    by (simp add: loadState_def fs_existsSync_def)
  have run: "main env_crash 2 crash_config
       \<lparr>FULL_RECONCILE = Some ''1'', FETCH_BLOCKS_FOR_DB = None\<rparr> world_before_crash
       = (fst crash_run, snd crash_run)"
    by (simp add: crash_run_def)
  have failed: "fst crash_run \<noteq> Return ()"
    using crash_run_value by simp
  from main_saves_state_once_at_the_end [OF run] failed
  have "files (snd crash_run) STATE_F = files world_before_crash STATE_F"
    and "loadState (snd crash_run) = loadState world_before_crash"
    by blast+
  then show ?thesis
    using crash_run_value before l0 by (simp add: crash_state_def)
qed

text \<open>The pagination loop returns the rows of the pages it is answered, and nothing else.\<close>

lemma paginate_of_answered:
  assumes "answered call cursor w ps w'" and "length ps \<le> fuel"
  shows "paginate fuel call cursor all w = (Return (all @ concat (map results ps)), w')"
  using assms
proof (induction arbitrary: fuel all rule: answered.induct)
  case (last_page call cursor w res w')
  then obtain n where "fuel = Suc n" by (cases fuel) auto
  with last_page show ?case by (simp add: then_do_def return_def)
next
  case (next_page call cursor w res w1 ps w')
  then obtain n where n: "fuel = Suc n" by (cases fuel) auto
  with next_page.prems have "length ps \<le> n" by simp
  from next_page.IH [OF this, of "all @ results res"] next_page.hyps(1,2) n
  show ?case by (simp add: then_do_def)
qed

lemma answered_of_paginate:
  assumes "paginate fuel call cursor all w = (Return rows, w')"
  shows "\<exists>ps. answered call cursor w ps w' \<and> rows = all @ concat (map results ps)
           \<and> length ps \<le> fuel"
  using assms
proof (induction fuel arbitrary: cursor all w)
  case 0
  then show ?case by simp
next
  case (Suc fuel)
  from Suc.prems obtain res w1 where
    one: "withRetry (call cursor) 5 w = (Return res, w1)"
    and rest: "(if \<not> has_more res then return (all @ results res)
                else paginate fuel call (next_cursor res) (all @ results res)) w1
               = (Return rows, w')"
    by (auto simp add: then_do_eq_Return)
  show ?case
  proof (cases "has_more res")
    case False
    with rest have "rows = all @ results res" and "w' = w1" by (simp_all add: return_eq)
    moreover have "answered call cursor w [res] w1"
      using one False by (rule answered.last_page)
    ultimately show ?thesis by (intro exI [of _ "[res]"]) simp
  next
    case True
    with rest have "paginate fuel call (next_cursor res) (all @ results res) w1 = (Return rows, w')"
      by simp
    from Suc.IH [OF this] obtain ps where
      ps: "answered call (next_cursor res) w1 ps w'"
        "rows = (all @ results res) @ concat (map results ps)" "length ps \<le> fuel" by blast
    have "answered call cursor w (res # ps) w'"
      using one True ps(1) by (rule answered.next_page)
    then show ?thesis using ps(2,3) by (intro exI [of _ "res # ps"]) simp
  qed
qed

lemma answered_unique:
  assumes "answered call cursor w ps w'" and "answered call cursor w ps2 w2"
  shows "ps2 = ps \<and> w2 = w'"
  using assms
proof (induction arbitrary: ps2 w2 rule: answered.induct)
  case (last_page call cursor w res w')
  from last_page.prems last_page.hyps show ?case
    by (cases rule: answered.cases) auto
next
  case (next_page call cursor w res w1 ps w')
  from next_page.prems next_page.hyps(1,2) next_page.IH show ?case
    by (cases rule: answered.cases) auto
qed


lemma syncDatabase_incremental_stores:
  assumes run: "syncDatabase E fuel db outName options w = (Return (), w')"
    and inc: "\<not> fullMode options"
  shows "\<exists>changed w1 rows.
      queryDatabaseIncremental E fuel db (sinceISO options) w = (Return changed, w1)
    \<and> files w' (db_file outName) = Some (DbJson rows)
    \<and> (\<forall>x \<in> set changed. \<exists>v. row_of rows (row_id x) = Some v
          \<and> (\<exists>q \<in> set changed. row_id q = row_id x
                \<and> upserted_from (fetchBlocksForRows options) q v))"
proof -
  from syncDatabase_returns_only_so [OF run] obtain changed w1 byId w2 where
    q: "queryDatabaseIncremental E fuel db (if fullMode options then None else sinceISO options) w
       = (Return changed, w1)"
    and rd: "snapshot_readable w outName"
    and sr: "sync_rows E fuel (fetchBlocksForRows options) changed
           (new_Map (map (\<lambda>x. (row_id x, x)) (stored_rows w outName))) w1 = (Return byId, w2)"
    and wr: "writable E (db_file outName)"
    by blast
  have en: "fullMode options \<Longrightarrow> fullIdsInDatabase E fuel db w2 = (Return [], w2)"
    using inc by simp
  from syncDatabase_runs [OF q rd sr en wr] obtain w'' where
    "syncDatabase E fuel db outName options w = (Return (), w'')"
    "files w'' (db_file outName) =
        Some (DbJson (map snd (if fullMode options
                                then filter (\<lambda>kv. fst kv \<in> set []) byId else byId)))"
    by blast
  with run inc have written: "files w' (db_file outName) = Some (DbJson (map snd byId))"
    by simp
  from sync_rows_index [OF sr] have d: "distinct (map fst byId)" and k: "keyed byId"
    by (simp_all add: new_Map_rows_keyed new_Map_distinct)
  have ro: "row_of (map snd byId) i = map_get byId i" for i
    using k d by (rule row_of_index)
  have st: "\<exists>v. row_of (map snd byId) (row_id x) = Some v
          \<and> (\<exists>q \<in> set changed. row_id q = row_id x
                \<and> upserted_from (fetchBlocksForRows options) q v)"
    if "x \<in> set changed" for x
  proof -
    from that have "row_id x \<in> row_id ` set changed" by simp
    from sync_rows_changed [OF sr this] obtain q v where
      "q \<in> set changed" "row_id q = row_id x" "map_get byId (row_id x) = Some v"
      "upserted_from (fetchBlocksForRows options) q v" by blast
    then show ?thesis unfolding ro by blast
  qed
  have q': "queryDatabaseIncremental E fuel db (sinceISO options) w = (Return changed, w1)"
    using q inc by simp
  show ?thesis
    using q' written st by (intro exI [of _ changed] exI [of _ w1] exI [of _ "map snd byId"]) simp
qed

text \<open>
  C6: in an incremental run (no forced reconciliation, a stored watermark \<open>W\<close> that parses
  to \<open>t\<close> ms), every database query the run sends carries the filter
  \<^verbatim>\<open>last_edited_time on_or_after\<close> the ISO form of \<open>t - 120000\<close>, the watermark minus two
  minutes: the run is the five syncs with that bound as \<^verbatim>\<open>sinceISO\<close>. The operator is the
  inclusive one: a stamp that denotes exactly that instant is admitted. The changed-row
  query returns what the remote answers to it, every row of every page, in order. So when
  the remote answers the rows of its table that the filter admits, a row of the table
  last edited at exactly the bound is among the changed rows, and a sync that returns
  has stored it in the snapshot.
\<close>

theorem incremental_query_bound:
  assumes run: "main E fuel cfg penv w0 = (r, w')"
    and inc: "FULL_RECONCILE penv \<noteq> Some ''1''"
    and mark: "lastSyncISO (loadState w0) = Some W" "W \<noteq> []"
    and parse: "date_parse E W = Some t"
    and range: "\<bar>t - 120000\<bar> \<le> 8640000000000000"
    and shown: "date_format E (t - 120000) \<noteq> []"
  shows "(\<exists>evs. trace w' = trace w0 @ evs
            \<and> list_all (query_bound_is (date_format E (t - 120000))) evs)
    \<and> (\<forall>stamp. date_parse E (date_format E (t - 120000)) = Some (t - 120000)
            \<and> date_parse E stamp = Some (t - 120000)
          \<longrightarrow> filter_admits E (LastEditedOnOrAfter (date_format E (t - 120000))) stamp)
    \<and> main E fuel cfg penv w0 =
        then_do (run_syncs E fuel cfg
                   \<lparr>sinceISO = Some (date_format E (t - 120000)), fullMode = False,
                    fetchBlocksForRows = (FETCH_BLOCKS_FOR_DB penv = Some ''1'')\<rparr>)
          (\<lambda>u. stamp_and_save E) (w0\<lparr>mem := loadState w0\<rparr>)
    \<and> (answered (notion_databases_query E db
                    (Some (LastEditedOnOrAfter (date_format E (t - 120000))))) None wq pgs wq'
        \<longrightarrow>
          (length pgs \<le> fuel \<longrightarrow>
             queryDatabaseIncremental E fuel db (Some (date_format E (t - 120000))) wq
               = (Return (concat (map results pgs)), wq'))
        \<and> (x \<in> set table
             \<and> (\<forall>y \<in> set table.
                   filter_admits E (LastEditedOnOrAfter (date_format E (t - 120000)))
                     (row_last_edited_time y)
                   \<longrightarrow> y \<in> set (concat (map results pgs)))
             \<and> date_parse E (date_format E (t - 120000)) = Some (t - 120000)
             \<and> date_parse E (row_last_edited_time x) = Some (t - 120000)
           \<longrightarrow>
             (length pgs \<le> fuel \<longrightarrow>
                (\<exists>rows. queryDatabaseIncremental E fuel db
                           (Some (date_format E (t - 120000))) wq = (Return rows, wq')
                   \<and> x \<in> set rows))
           \<and> (syncDatabase E fuel db outName
                   \<lparr>sinceISO = Some (date_format E (t - 120000)), fullMode = False,
                    fetchBlocksForRows = (FETCH_BLOCKS_FOR_DB penv = Some ''1'')\<rparr> wq
                   = (Return (), ws)
                \<longrightarrow> (\<exists>rows v. files ws (db_file outName) = Some (DbJson rows)
                       \<and> row_of rows (row_id x) = Some v
                       \<and> (\<exists>q \<in> set (concat (map results pgs)). row_id q = row_id x
                             \<and> upserted_from (FETCH_BLOCKS_FOR_DB penv = Some ''1'') q v)))))"
proof -
  let ?s = "date_format E (t - 120000)"
  let ?P = "query_bound_is ?s"
  let ?w = "w0\<lparr>mem := loadState w0\<rparr>"
  let ?opts = "\<lparr>sinceISO = Some ?s, fullMode = False,
                 fetchBlocksForRows = (FETCH_BLOCKS_FOR_DB penv = Some ''1'')\<rparr>"
  let ?call = "notion_databases_query E db (Some (LastEditedOnOrAfter ?s))"
  have nf: "\<not> run_full_mode penv (mem ?w)"
    using inc mark by (simp add: run_full_mode_def truthy_def)
  have since: "isoMinusMinutes E (lastSyncISO (mem ?w)) 2 = Inr (Some ?s)"
    using mark parse range by (simp add: isoMinusMinutes_def Let_def)
  have m: "main E fuel cfg penv w0 =
      then_do (run_syncs E fuel cfg ?opts) (\<lambda>u. stamp_and_save E) ?w"
    using nf since by (simp add: main_def Let_def)
  have "emits ?P (then_do (run_syncs E fuel cfg ?opts) (\<lambda>u. stamp_and_save E))"
    using shown
    by (intro emits_then_do emits_run_syncs emits_stamp_and_save benign_query_bound)
       (simp_all add: query_bound_is_def since_filter_def)
  from emitsD [OF this run [unfolded m]] obtain evs where
    "trace w' = trace w0 @ evs" "list_all ?P evs" by auto
  then have A: "\<exists>evs. trace w' = trace w0 @ evs \<and> list_all ?P evs" by blast
  have B: "\<forall>stamp. date_parse E ?s = Some (t - 120000)
            \<and> date_parse E stamp = Some (t - 120000)
          \<longrightarrow> filter_admits E (LastEditedOnOrAfter ?s) stamp"
    by (simp add: filter_admits_def)
  have sf: "since_filter (Some ?s) = Some (LastEditedOnOrAfter ?s)"
    using shown by (simp add: since_filter_def)
  have Q: "queryDatabaseIncremental E fuel db (Some ?s) wq
             = (Return (concat (map results pgs)), wq')"
    if "answered ?call None wq pgs wq'" and "length pgs \<le> fuel"
    using paginate_of_answered [OF that, of "[]"]
    by (simp add: queryDatabaseIncremental_def sf)
  have X: "x \<in> set (concat (map results pgs))"
    if "x \<in> set table
        \<and> (\<forall>y \<in> set table. filter_admits E (LastEditedOnOrAfter ?s) (row_last_edited_time y)
             \<longrightarrow> y \<in> set (concat (map results pgs)))
        \<and> date_parse E ?s = Some (t - 120000)
        \<and> date_parse E (row_last_edited_time x) = Some (t - 120000)"
  proof -
    from that have x: "x \<in> set table"
      and all: "\<forall>y \<in> set table. filter_admits E (LastEditedOnOrAfter ?s) (row_last_edited_time y)
             \<longrightarrow> y \<in> set (concat (map results pgs))"
      and p1: "date_parse E ?s = Some (t - 120000)"
      and p2: "date_parse E (row_last_edited_time x) = Some (t - 120000)"
      by simp_all
    have "filter_admits E (LastEditedOnOrAfter ?s) (row_last_edited_time x)"
      using p1 p2 by (simp add: filter_admits_def)
    with x all show ?thesis by blast
  qed
  have S: "\<exists>rows v. files ws (db_file outName) = Some (DbJson rows)
             \<and> row_of rows (row_id x) = Some v
             \<and> (\<exists>q \<in> set (concat (map results pgs)). row_id q = row_id x
                   \<and> upserted_from (FETCH_BLOCKS_FOR_DB penv = Some ''1'') q v)"
    if a: "answered ?call None wq pgs wq'"
      and x: "x \<in> set (concat (map results pgs))"
      and s: "syncDatabase E fuel db outName ?opts wq = (Return (), ws)"
  proof -
    have inc': "\<not> fullMode ?opts" by simp
    from syncDatabase_incremental_stores [OF s inc'] obtain changed w1 rows where
      q: "queryDatabaseIncremental E fuel db (sinceISO ?opts) wq = (Return changed, w1)"
      and f: "files ws (db_file outName) = Some (DbJson rows)"
      and st: "\<forall>x \<in> set changed. \<exists>v. row_of rows (row_id x) = Some v
          \<and> (\<exists>q \<in> set changed. row_id q = row_id x
                \<and> upserted_from (fetchBlocksForRows ?opts) q v)"
      by blast
    have "paginate fuel ?call None [] wq = (Return changed, w1)"
      using q by (simp add: queryDatabaseIncremental_def sf)
    from answered_of_paginate [OF this]
    obtain ps where "answered ?call None wq ps w1" "changed = concat (map results ps)"
      by auto
    with answered_unique [OF a, of ps w1] have c: "changed = concat (map results pgs)"
      by simp
    from st x obtain v where
      "row_of rows (row_id x) = Some v"
      "\<exists>q \<in> set changed. row_id q = row_id x \<and> upserted_from (fetchBlocksForRows ?opts) q v"
      unfolding c by blast
    with f show ?thesis unfolding c by simp
  qed
  show ?thesis
  proof (intro conjI impI)
    show "\<exists>evs. trace w' = trace w0 @ evs \<and> list_all ?P evs" by (rule A)
    show "\<forall>stamp. date_parse E ?s = Some (t - 120000)
            \<and> date_parse E stamp = Some (t - 120000)
          \<longrightarrow> filter_admits E (LastEditedOnOrAfter ?s) stamp" by (rule B)
    show "main E fuel cfg penv w0 =
      then_do (run_syncs E fuel cfg ?opts) (\<lambda>u. stamp_and_save E) ?w" by (rule m)
  next
    assume "answered ?call None wq pgs wq'" and "length pgs \<le> fuel"
    then show "queryDatabaseIncremental E fuel db (Some ?s) wq
             = (Return (concat (map results pgs)), wq')" by (rule Q)
  next
    assume a: "answered ?call None wq pgs wq'" and l: "length pgs \<le> fuel"
      and h: "x \<in> set table
        \<and> (\<forall>y \<in> set table. filter_admits E (LastEditedOnOrAfter ?s) (row_last_edited_time y)
             \<longrightarrow> y \<in> set (concat (map results pgs)))
        \<and> date_parse E ?s = Some (t - 120000)
        \<and> date_parse E (row_last_edited_time x) = Some (t - 120000)"
    from Q [OF a l] X [OF h]
    show "\<exists>rows. queryDatabaseIncremental E fuel db (Some ?s) wq = (Return rows, wq')
            \<and> x \<in> set rows" by simp
  next
    assume a: "answered ?call None wq pgs wq'"
      and h: "x \<in> set table
        \<and> (\<forall>y \<in> set table. filter_admits E (LastEditedOnOrAfter ?s) (row_last_edited_time y)
             \<longrightarrow> y \<in> set (concat (map results pgs)))
        \<and> date_parse E ?s = Some (t - 120000)
        \<and> date_parse E (row_last_edited_time x) = Some (t - 120000)"
      and s: "syncDatabase E fuel db outName ?opts wq = (Return (), ws)"
    from S [OF a X [OF h] s]
    show "\<exists>rows v. files ws (db_file outName) = Some (DbJson rows)
             \<and> row_of rows (row_id x) = Some v
             \<and> (\<exists>q \<in> set (concat (map results pgs)). row_id q = row_id x
                   \<and> upserted_from (FETCH_BLOCKS_FOR_DB penv = Some ''1'') q v)" .
  qed
qed

lemmas margin_defs = main_def run_syncs_def members_config_def
  normalize_members normalize_none sync_page_if_set_def sync_db_if_set_def
  run_full_mode_def loadState_def fs_existsSync_def STATE_F_def CACHE_DIR_def
  world_synced_def isoMinusMinutes_def env_clock_def stamp_and_save_def saveState_def
  syncDatabase_def queryDatabaseIncremental_def
  then_do_def return_def withRetry_def withRetry_from.simps notion_databases_query_def
  asked_def settle_def since_filter_def read_snapshot_def db_file_def path_join_def
  OUT_DIR_def ROOT_def new_Map_def sync_row_def prepare_row_def cache_row_cover_def
  cover_url_def truthy_def js_or_def fetch_row_blocks_def upsert_row_def fs_writeFileSync_def
  env_margin_def margin_clock_def filter_admits_def
  env_db_def env_cdn_def env_offline_def empty_state_def
  row_a_def row_b_def row_c_def row_a_old_def row_before_def row_edge_def row_after_def
  members_nonempty Let_def

lemma margin_main_value:
  "fst margin_main = Return ()
   \<and> files (snd margin_main) ''/site/notion-data/db-members.json''
       = Some (DbJson [row_a_old, row_b, row_c, row_edge, row_after])"
  by (simp add: margin_main_def margin_defs)

theorem incremental_query_bound_witness:
  "lastSyncISO (loadState world_synced) = Some ''2024-05-01T00:02:00.000Z''
   \<and> trace (snd incremental_main) =
       [ApiCall (DatabasesQuery members_id None
          (Some (LastEditedOnOrAfter ''2024-05-01T00:00:00.000Z''))),
        FileWrite ''/site/notion-data/db-members.json'',
        FileWrite ''/site/.cache/state.json'']
   \<and> filter_admits env_clock (LastEditedOnOrAfter ''2024-05-01T00:00:00.000Z'')
        ''2024-05-01T00:00:00.000Z''
   \<and> \<not> filter_admits env_clock (LastEditedOnOrAfter ''2024-05-01T00:02:00.000Z'')
        ''2024-05-01T00:00:00.000Z''
   \<and> row_last_edited_time row_edge = ''2024-05-01T00:00:00.000Z''
   \<and> fst (queryDatabaseIncremental env_margin 1 members_id (Some ''2024-05-01T00:00:00.000Z'')
          (world_synced\<lparr>mem := loadState world_synced\<rparr>)) = Return [row_edge, row_after]
   \<and> fst margin_main = Return ()
   \<and> files (snd margin_main) (db_file ''members'')
       = Some (DbJson [row_a_old, row_b, row_c, row_edge, row_after])"
proof -
  let ?penv = "\<lparr>FULL_RECONCILE = None, FETCH_BLOCKS_FOR_DB = None\<rparr>"
  let ?bound = "''2024-05-01T00:00:00.000Z''"
  let ?wq = "world_synced\<lparr>mem := loadState world_synced\<rparr>"
  let ?wq' = "?wq\<lparr>tick := 1, trace := [ApiCall (DatabasesQuery members_id None
                 (Some (LastEditedOnOrAfter ?bound)))]\<rparr>"
  let ?page = "\<lparr>results = [row_edge, row_after], has_more = False, next_cursor = None\<rparr>"
  have mark: "lastSyncISO (loadState world_synced) = Some ''2024-05-01T00:02:00.000Z''"
    by (simp add: loadState_def fs_existsSync_def STATE_F_def CACHE_DIR_def ROOT_def
        path_join_def world_synced_def empty_state_def)
  have ne: "''2024-05-01T00:02:00.000Z'' \<noteq> []"
    by simp
  have inc: "FULL_RECONCILE ?penv \<noteq> Some ''1''"
    by simp
  have range: "\<bar>1714521720000 - 120000\<bar> \<le> (8640000000000000 :: int)"
    by simp
  have fmt: "date_format env_clock (1714521720000 - 120000) = ?bound"
    by (simp add: env_clock_def)
  have run: "main env_clock 1 members_config ?penv world_synced
       = (fst incremental_main, snd incremental_main)"
    by (simp add: incremental_main_def)
  have parse: "date_parse env_clock ''2024-05-01T00:02:00.000Z'' = Some 1714521720000"
    and bound: "date_parse env_clock ?bound = Some (1714521720000 - 120000)"
    by (simp_all add: env_clock_def)
  have shown: "date_format env_clock (1714521720000 - 120000) \<noteq> []"
    unfolding fmt by simp
  note T = incremental_query_bound [OF run inc mark ne parse range shown, unfolded fmt]
  from T bound
  have admits: "filter_admits env_clock (LastEditedOnOrAfter ?bound) ?bound"
    by blast
  have rejects: "\<not> filter_admits env_clock (LastEditedOnOrAfter ''2024-05-01T00:02:00.000Z'')
        ?bound"
    by (simp add: filter_admits_def env_clock_def)
  have fmt': "date_format env_margin (1714521720000 - 120000) = ?bound"
    by (simp add: env_margin_def margin_clock_def env_clock_def)
  have run': "main env_margin 1 members_config ?penv world_synced
       = (fst margin_main, snd margin_main)"
    by (simp add: margin_main_def)
  have parse': "date_parse env_margin ''2024-05-01T00:02:00.000Z'' = Some 1714521720000"
    and bound': "date_parse env_margin ?bound = Some (1714521720000 - 120000)"
    by (simp_all add: env_margin_def margin_clock_def env_clock_def)
  have shown': "date_format env_margin (1714521720000 - 120000) \<noteq> []"
    unfolding fmt' by simp
  have edge: "row_last_edited_time row_edge = ?bound"
    by (simp add: row_edge_def)
  have ans: "answered (notion_databases_query env_margin members_id
                (Some (LastEditedOnOrAfter ?bound))) None ?wq [?page] ?wq'"
    by (rule answered.last_page)
       (simp_all add: withRetry_def withRetry_from.simps notion_databases_query_def
          asked_def settle_def env_margin_def margin_clock_def env_clock_def
          filter_admits_def row_before_def row_edge_def row_after_def world_synced_def)
  have table: "row_edge \<in> set [row_before, row_edge, row_after]
        \<and> (\<forall>y \<in> set [row_before, row_edge, row_after].
              filter_admits env_margin (LastEditedOnOrAfter ?bound) (row_last_edited_time y)
              \<longrightarrow> y \<in> set (concat (map results [?page])))
        \<and> date_parse env_margin ?bound = Some (1714521720000 - 120000)
        \<and> date_parse env_margin (row_last_edited_time row_edge) = Some (1714521720000 - 120000)"
    by (simp add: env_margin_def margin_clock_def env_clock_def filter_admits_def
        row_before_def row_edge_def row_after_def)
  note U = incremental_query_bound [OF run' inc mark ne parse' range shown',
      unfolded fmt', where db = members_id and wq = ?wq and pgs = "[?page]" and wq' = ?wq'
        and table = "[row_before, row_edge, row_after]" and x = row_edge]
  from U ans table
  have "\<exists>rows. queryDatabaseIncremental env_margin 1 members_id (Some ?bound) ?wq
                  = (Return rows, ?wq') \<and> row_edge \<in> set rows"
    and "queryDatabaseIncremental env_margin 1 members_id (Some ?bound) ?wq
                  = (Return (concat (map results [?page])), ?wq')"
    by simp_all
  then have captured: "fst (queryDatabaseIncremental env_margin 1 members_id (Some ?bound) ?wq)
      = Return [row_edge, row_after]"
    by simp
  have p: "db_file ''members'' = ''/site/notion-data/db-members.json''"
    by (simp add: db_file_def path_join_def OUT_DIR_def ROOT_def)
  show ?thesis
    using mark incremental_main_value admits rejects edge captured margin_main_value
    by (simp add: p)
qed

section \<open>Results do not depend on the fuel\<close>

lemma fuel_stable_refl: "fuel_stable m m"
  by (simp add: fuel_stable_def)

lemma fuel_stableI: "(\<And>w. fst (m w) \<noteq> Diverge \<Longrightarrow> m' w = m w) \<Longrightarrow> fuel_stable m m'"
  by (simp add: fuel_stable_def)

lemma fuel_stableD: "fuel_stable m m' \<Longrightarrow> fst (m w) \<noteq> Diverge \<Longrightarrow> m' w = m w"
  by (simp add: fuel_stable_def)

lemma fuel_stable_then_do:
  assumes m: "fuel_stable m m'" and f: "\<And>x. fuel_stable (f x) (f' x)"
  shows "fuel_stable (then_do m f) (then_do m' f')"
proof (rule fuel_stableI)
  fix w
  assume ends: "fst (then_do m f w) \<noteq> Diverge"
  obtain r w1 where mw: "m w = (r, w1)" by (cases "m w")
  have "r \<noteq> Diverge" using ends mw by (auto simp add: then_do_def)
  then have m': "m' w = (r, w1)" using fuel_stableD [OF m, of w] mw by simp
  show "then_do m' f' w = then_do m f w"
  proof (cases r)
    case (Return x)
    then have "fst (f x w1) \<noteq> Diverge" using ends mw by (simp add: then_do_def)
    then have "f' x w1 = f x w1" by (rule fuel_stableD [OF f])
    then show ?thesis using mw m' Return by (simp add: then_do_def)
  next
    case (Throw e)
    then show ?thesis using mw m' by (simp add: then_do_def)
  next
    case Diverge
    then show ?thesis using \<open>r \<noteq> Diverge\<close> by simp
  qed
qed

lemma fuel_stable_pointwise:
  assumes "\<And>w. \<exists>a b. fuel_stable a b \<and> m w = a w \<and> m' w = b w"
  shows "fuel_stable m m'"
proof (rule fuel_stableI)
  fix w
  assume ends: "fst (m w) \<noteq> Diverge"
  from assms obtain a b where "fuel_stable a b" "m w = a w" "m' w = b w" by blast
  then show "m' w = m w" using ends fuel_stableD [of a b w] by simp
qed

lemma paginate_fuel:
  "fuel_stable (paginate fuel call cursor all) (paginate (Suc fuel) call cursor all)"
proof (induction fuel arbitrary: cursor all)
  case 0
  show ?case by (simp add: fuel_stable_def)
next
  case (Suc fuel)
  have step: "fuel_stable
      (if \<not> has_more res then return (all @ results res)
       else paginate fuel call (next_cursor res) (all @ results res))
      (if \<not> has_more res then return (all @ results res)
       else paginate (Suc fuel) call (next_cursor res) (all @ results res))" for res
    by (cases "has_more res") (simp_all add: fuel_stable_refl Suc del: paginate.simps)
  have L: "paginate (Suc fuel) call cursor all =
      then_do (withRetry (call cursor) 5)
        (\<lambda>res. if \<not> has_more res then return (all @ results res)
               else paginate fuel call (next_cursor res) (all @ results res))"
    by (rule paginate.simps (2))
  have R: "paginate (Suc (Suc fuel)) call cursor all =
      then_do (withRetry (call cursor) 5)
        (\<lambda>res. if \<not> has_more res then return (all @ results res)
               else paginate (Suc fuel) call (next_cursor res) (all @ results res))"
    by (rule paginate.simps (2))
  show ?case
    unfolding L R by (intro fuel_stable_then_do fuel_stable_refl step)
qed

lemma listBlocks_fuel:
  "fuel_stable (listBlocks E fuel blockId) (listBlocks E (Suc fuel) blockId)"
  and "fuel_stable (listBlocks_each E fuel bs) (listBlocks_each E (Suc fuel) bs)"
proof (induction E fuel blockId and E fuel bs rule: listBlocks_listBlocks_each.induct)
  case (1 E blockId)
  show ?case by (simp add: fuel_stable_def)
next
  case (2 E fuel blockId)
  have L: "listBlocks E (Suc fuel) blockId =
      then_do (paginate fuel (notion_blocks_children_list E blockId) None [])
        (\<lambda>all. listBlocks_each E fuel all)"
    by (rule listBlocks.simps (2))
  have R: "listBlocks E (Suc (Suc fuel)) blockId =
      then_do (paginate (Suc fuel) (notion_blocks_children_list E blockId) None [])
        (\<lambda>all. listBlocks_each E (Suc fuel) all)"
    by (rule listBlocks.simps (2))
  show ?case
    unfolding L R by (intro fuel_stable_then_do paginate_fuel 2)
next
  case (3 E fuel)
  show ?case by (simp add: fuel_stable_refl)
next
  case (4 E fuel b bs)
  show ?case
    unfolding listBlocks_each.simps (2)
    using 4
    by (intro fuel_stable_then_do) (auto simp add: fuel_stable_refl intro!: fuel_stable_then_do)
qed


lemma fetch_row_blocks_fuel:
  "fuel_stable (fetch_row_blocks E fuel fb p) (fetch_row_blocks E (Suc fuel) fb p)"
proof (rule fuel_stableI)
  fix w
  assume ends: "fst (fetch_row_blocks E fuel fb p w) \<noteq> Diverge"
  show "fetch_row_blocks E (Suc fuel) fb p w = fetch_row_blocks E fuel fb p w"
  proof (cases fb)
    case False
    then show ?thesis by (simp add: fetch_row_blocks_def)
  next
    case True
    with ends have "fst (listBlocks E fuel (row_id p) w) \<noteq> Diverge"
      by (auto simp add: fetch_row_blocks_def split: prod.splits outcome.splits)
    then have "listBlocks E (Suc fuel) (row_id p) w = listBlocks E fuel (row_id p) w"
      by (rule fuel_stableD [OF listBlocks_fuel(1)])
    then show ?thesis by (simp only: fetch_row_blocks_def)
  qed
qed

lemma sync_row_fuel:
  "fuel_stable (sync_row E fuel fb p byId) (sync_row E (Suc fuel) fb p byId)"
  unfolding sync_row_def prepare_row_def
  by (intro fuel_stable_then_do fuel_stable_refl fetch_row_blocks_fuel)

lemma sync_rows_fuel:
  "fuel_stable (sync_rows E fuel fb ps byId) (sync_rows E (Suc fuel) fb ps byId)"
  by (induction ps arbitrary: byId)
     (auto simp add: fuel_stable_refl intro!: fuel_stable_then_do sync_row_fuel)

lemma syncDatabase_fuel:
  "fuel_stable (syncDatabase E fuel db outName options)
     (syncDatabase E (Suc fuel) db outName options)"
proof -
  have rec: "fuel_stable
      (if fullMode options
       then then_do (fullIdsInDatabase E fuel db) (\<lambda>currentIds. return (reconcile currentIds byId))
       else return byId)
      (if fullMode options
       then then_do (fullIdsInDatabase E (Suc fuel) db)
              (\<lambda>currentIds. return (reconcile currentIds byId))
       else return byId)" for byId
    unfolding fullIdsInDatabase_def
    by (cases "fullMode options")
       (auto simp add: fuel_stable_refl simp del: paginate.simps
        intro!: fuel_stable_then_do paginate_fuel)
  show ?thesis
    unfolding syncDatabase_def queryDatabaseIncremental_def
    by (intro fuel_stable_then_do paginate_fuel fuel_stable_refl sync_rows_fuel rec)
qed

lemma fetch_changed_page_fuel:
  "fuel_stable (fetch_changed_page E fuel pageId aliasOut meta prev)
     (fetch_changed_page E (Suc fuel) pageId aliasOut meta prev)"
  unfolding fetch_changed_page_def
  by (intro fuel_stable_then_do listBlocks_fuel fuel_stable_refl)

lemma fetchPageIfChanged_fuel:
  "fuel_stable (fetchPageIfChanged E fuel pageId aliasOut)
     (fetchPageIfChanged E (Suc fuel) pageId aliasOut)"
  unfolding fetchPageIfChanged_def
proof (intro fuel_stable_then_do fuel_stable_refl fuel_stable_pointwise)
  fix meta and w :: world
  let ?prev = "pages (mem w) pageId"
  show "\<exists>a b. fuel_stable a b
      \<and> (let prev = pages (mem w) pageId
          in if \<not> page_changed prev meta then (Return None, w)
             else fetch_changed_page E fuel pageId aliasOut meta prev w) = a w
      \<and> (let prev = pages (mem w) pageId
          in if \<not> page_changed prev meta then (Return None, w)
             else fetch_changed_page E (Suc fuel) pageId aliasOut meta prev w) = b w"
  proof (cases "page_changed ?prev meta")
    case True
    then show ?thesis
      using fetch_changed_page_fuel [of E fuel pageId aliasOut meta ?prev]
      by (intro exI [of _ "fetch_changed_page E fuel pageId aliasOut meta ?prev"]
          exI [of _ "fetch_changed_page E (Suc fuel) pageId aliasOut meta ?prev"]) simp
  next
    case False
    then show ?thesis
      by (intro exI [of _ "return None"]) (simp add: fuel_stable_refl return_def)
  qed
qed

lemma run_syncs_fuel:
  "fuel_stable (run_syncs E fuel cfg options) (run_syncs E (Suc fuel) cfg options)"
proof -
  have p: "fuel_stable (sync_page_if_set E fuel pid a) (sync_page_if_set E (Suc fuel) pid a)"
    for pid a
    by (auto simp add: sync_page_if_set_def fuel_stable_refl split: option.splits
        intro!: fuel_stable_then_do fetchPageIfChanged_fuel)
  have d: "fuel_stable (sync_db_if_set E fuel dbid n options)
      (sync_db_if_set E (Suc fuel) dbid n options)" for dbid n
    by (auto simp add: sync_db_if_set_def fuel_stable_refl syncDatabase_fuel
        split: option.splits)
  show ?thesis
    unfolding run_syncs_def by (intro fuel_stable_then_do p d)
qed

lemma main_fuel_step:
  "fuel_stable (main E fuel cfg penv) (main E (Suc fuel) cfg penv)"
proof (rule fuel_stable_pointwise)
  fix w0
  let ?w = "w0\<lparr>mem := loadState w0\<rparr>"
  let ?full = "run_full_mode penv (mem ?w)"
  show "\<exists>a b. fuel_stable a b \<and> main E fuel cfg penv w0 = a w0
      \<and> main E (Suc fuel) cfg penv w0 = b w0"
  proof (cases "if ?full then Inr None else isoMinusMinutes E (lastSyncISO (mem ?w)) 2")
    case (Inl e)
    then show ?thesis
      by (intro exI [of _ "\<lambda>w. (Throw e, w\<lparr>mem := loadState w\<rparr>)"])
         (simp add: main_def Let_def fuel_stable_refl)
  next
    case (Inr since)
    let ?opts = "\<lparr>sinceISO = since, fullMode = ?full,
                   fetchBlocksForRows = (FETCH_BLOCKS_FOR_DB penv = Some ''1'')\<rparr>"
    let ?a = "\<lambda>f w. then_do (run_syncs E f cfg ?opts) (\<lambda>u. stamp_and_save E)
                       (w\<lparr>mem := loadState w\<rparr>)"
    have "fuel_stable (then_do (run_syncs E fuel cfg ?opts) (\<lambda>u. stamp_and_save E))
        (then_do (run_syncs E (Suc fuel) cfg ?opts) (\<lambda>u. stamp_and_save E))"
      by (intro fuel_stable_then_do run_syncs_fuel fuel_stable_refl)
    then have "fuel_stable (?a fuel) (?a (Suc fuel))"
      by (simp add: fuel_stable_def)
    moreover have "main E fuel cfg penv w0 = ?a fuel w0"
      and "main E (Suc fuel) cfg penv w0 = ?a (Suc fuel) w0"
      using Inr by (simp_all add: main_def Let_def)
    ultimately show ?thesis by blast
  qed
qed

text \<open>
  A program that ends with some fuel ends the same way with any more: the fuel only
  decides whether the model follows the remote to the end.
\<close>

lemma more_fuel:
  assumes step: "\<And>n. fuel_stable (f n) (f (Suc n))"
    and ends: "fst (f fuel w) \<noteq> Diverge"
  shows "f (fuel + k) w = f fuel w"
proof (induction k)
  case 0
  show ?case by simp
next
  case (Suc k)
  have "fst (f (fuel + k) w) \<noteq> Diverge"
    using ends Suc by simp
  from fuel_stableD [OF step this] Suc show ?case by simp
qed

lemma main_more_fuel:
  "fst (main E fuel cfg penv w) \<noteq> Diverge \<Longrightarrow>
   main E (fuel + k) cfg penv w = main E fuel cfg penv w"
  by (rule more_fuel [where f = "\<lambda>n. main E n cfg penv"]) (rule main_fuel_step)

lemma syncDatabase_more_fuel:
  "fst (syncDatabase E fuel db outName options w) \<noteq> Diverge \<Longrightarrow>
   syncDatabase E (fuel + k) db outName options w = syncDatabase E fuel db outName options w"
  by (rule more_fuel [where f = "\<lambda>n. syncDatabase E n db outName options"])
     (rule syncDatabase_fuel)

lemma fetchPageIfChanged_more_fuel:
  "fst (fetchPageIfChanged E fuel pageId aliasOut w) \<noteq> Diverge \<Longrightarrow>
   fetchPageIfChanged E (fuel + k) pageId aliasOut w = fetchPageIfChanged E fuel pageId aliasOut w"
  by (rule more_fuel [where f = "\<lambda>n. fetchPageIfChanged E n pageId aliasOut"])
     (rule fetchPageIfChanged_fuel)

section \<open>More on the identifier normaliser\<close>

lemma match_hex32_Some:
  "match_hex32 s = Some m \<Longrightarrow> length m = 32 \<and> list_all is_hex m"
  by (induction s) (auto split: if_splits)

text \<open>
  What \<open>normalizeId\<close> accepts through its first path is 32 hexadecimal characters in
  lower case; whatever it accepts has 32 characters.
\<close>

lemma normalizeId_of_match:
  assumes "i \<noteq> []" and "match_hex32 (trim i) = Some m"
  shows "normalizeId (Some i) = Some (toLowerCase m)"
  using assms match_hex32_Some [OF assms(2)] by (simp add: normalizeId_def)

lemma normalizeId_length: "normalizeId input = Some c \<Longrightarrow> length c = 32"
  by (auto simp add: normalizeId_def Let_def toLowerCase_def split: option.splits if_splits)

lemma normalizeId_falsy: "normalizeId None = None \<and> normalizeId (Some []) = None"
  by (simp add: normalizeId_def)

text \<open>The no-break space is white space to \<^verbatim>\<open>trim\<close>.\<close>

lemma normalizeId_trims_no_break_space:
  "normalizeId (Some (CHR 0xA0 # ''fedcba98-7654-3210-fedc-ba9876543210'' @ [CHR 0xA0]))
     = Some ''fedcba9876543210fedcba9876543210''"
  by (simp add: normalizeId_def trim_def is_space_def is_hex_def toLowerCase_def
      to_lower_char_def)

end
